theory Spec2Isabelle
  imports Main "HOL-Library.Code_Target_Nat"
begin

section \<open>The element type and the allocator\<close>

text \<open>
  \<^verbatim>\<open>vector.h\<close> is a template over the element type \<open>T\<close> and allocates with the global
  \<^verbatim>\<open>operator new\<close>. Neither is part of the header, so both are parameters of the model:
  the record \<open>env\<close> gives \<^verbatim>\<open>sizeof(T)\<close>, says which requests (in bytes) the allocator
  refuses and which of \<open>T\<close>'s special member functions throw, on which values.

  What is assumed of \<open>T\<close>: a copy or a move that succeeds gives the target the value of the
  source; a move leaves \<open>moved_from x\<close> in the source; an operation that throws leaves its
  operands as they were; whether an operation throws depends on the values it is applied
  to; destructors do not throw. A call that returns has met no exception, so what is proved
  of the vector a call returns does not depend on how \<open>T\<close> decides to throw.
\<close>

datatype exn = bad_alloc | T_exception nat

record 'a env =
  sizeof_T :: nat
  alloc_fails :: "nat \<Rightarrow> bool"
  is_nothrow_move_constructible :: bool
  is_copy_constructible :: bool
  value_init :: "exn + 'a"
  copy_ctor_throws :: "'a \<Rightarrow> exn option"
  move_ctor_throws :: "'a \<Rightarrow> exn option"
  copy_assign_throws :: "'a \<Rightarrow> 'a \<Rightarrow> exn option"
  move_assign_throws :: "'a \<Rightarrow> 'a \<Rightarrow> exn option"
  moved_from :: "'a \<Rightarrow> 'a"

text \<open>\<^verbatim>\<open>T(const T&)\<close> applied to an object holding \<open>x\<close>.\<close>

definition copy_construct :: "('a, 'e) env_scheme \<Rightarrow> 'a \<Rightarrow> exn + 'a" where
  "copy_construct E x = (case copy_ctor_throws E x of Some e \<Rightarrow> Inl e | None \<Rightarrow> Inr x)"

text \<open>\<^verbatim>\<open>T(T&&)\<close> applied to an object holding \<open>x\<close>: the new object, or the exception.\<close>

definition move_construct :: "('a, 'e) env_scheme \<Rightarrow> 'a \<Rightarrow> exn + 'a" where
  "move_construct E x = (case move_ctor_throws E x of Some e \<Rightarrow> Inl e | None \<Rightarrow> Inr x)"

section \<open>Machine integers\<close>

text \<open>
  \<^verbatim>\<open>size_t\<close> has 64 bits: \<open>size_t n\<close> is what the product or sum \<open>n\<close> is once it is
  stored in a \<^verbatim>\<open>size_t\<close>. No object has more than \<open>PTRDIFF_MAX\<close> bytes.
\<close>

definition size_t :: "nat \<Rightarrow> nat" where
  "size_t n = n mod 2 ^ 64"

definition PTRDIFF_MAX :: nat where
  "PTRDIFF_MAX = 2 ^ 63 - 1"

section \<open>Raw storage\<close>

text \<open>
  A block of \<open>n\<close> slots is a list of length \<open>n\<close>; a slot is \<open>None\<close> while it is
  uninitialised memory and \<open>Some x\<close> while it holds a live object with value \<open>x\<close>.
  The null pointer, and a pointer whose block has been released, is the empty list.
  The members \<^verbatim>\<open>buffer_\<close>, \<^verbatim>\<open>capacity_\<close>, \<^verbatim>\<open>data_\<close> and \<^verbatim>\<open>size_\<close> of the source
  are \<open>buffer_m\<close>, \<open>capacity_m\<close>, \<open>data_v\<close> and \<open>size_v\<close> here.
\<close>

type_synonym 'a block = "'a option list"

record 'a RawMemory =
  buffer_m :: "'a block"
  capacity_m :: nat

text \<open>
  \<^verbatim>\<open>Allocate(n)\<close> asks \<^verbatim>\<open>operator new\<close> for \<^verbatim>\<open>n * sizeof(T)\<close> bytes, a product
  taken in \<^verbatim>\<open>size_t\<close>: when it wraps, the block is smaller than \<open>n\<close> slots.
  \<^verbatim>\<open>operator new\<close> throws when the request is for more than \<open>PTRDIFF_MAX\<close> bytes or
  when the allocator refuses it; a request for 0 bytes gives an empty block.
\<close>

definition Allocate :: "('a, 'e) env_scheme \<Rightarrow> nat \<Rightarrow> exn + 'a block" where
  "Allocate E n =
     (if n \<noteq> 0 then
        (let bytes = size_t (n * sizeof_T E)
         in if PTRDIFF_MAX < bytes \<or> alloc_fails E bytes then Inl bad_alloc
            else Inr (replicate (bytes div sizeof_T E) None))
      else Inr [])"

definition RawMemory_default :: "'a RawMemory" where
  "RawMemory_default = \<lparr>buffer_m = [], capacity_m = 0\<rparr>"

definition RawMemory_new :: "('a, 'e) env_scheme \<Rightarrow> nat \<Rightarrow> exn + 'a RawMemory" where
  "RawMemory_new E capacity =
     (case Allocate E capacity of
        Inl e \<Rightarrow> Inl e
      | Inr b \<Rightarrow> Inr \<lparr>buffer_m = b, capacity_m = capacity\<rparr>)"

definition RawMemory_Swap :: "'a RawMemory \<Rightarrow> 'a RawMemory \<Rightarrow> 'a RawMemory \<times> 'a RawMemory" where
  "RawMemory_Swap this other =
     (this\<lparr>buffer_m := buffer_m other, capacity_m := capacity_m other\<rparr>,
      other\<lparr>buffer_m := buffer_m this, capacity_m := capacity_m this\<rparr>)"

definition RawMemory_Capacity :: "'a RawMemory \<Rightarrow> nat" where
  "RawMemory_Capacity m = capacity_m m"

text \<open>
  \<^verbatim>\<open>operator delete(buffer_ + offset)\<close>. At offset 0 the pointer is the one
  \<^verbatim>\<open>operator new\<close> returned (or null) and the block is released, while the object keeps
  its \<open>capacity_m\<close>; at any other offset the pointer was never returned by
  \<^verbatim>\<open>operator new\<close> and the behaviour is undefined (\<open>None\<close>).
\<close>

definition operator_delete :: "'a RawMemory \<Rightarrow> nat \<Rightarrow> 'a RawMemory option" where
  "operator_delete m offset = (if offset = 0 then Some (m\<lparr>buffer_m := []\<rparr>) else None)"

section \<open>Access to the slots of a block\<close>

text \<open>
  Reading or writing outside the block, and reading a slot that holds no object, is
  undefined behaviour: the result is \<open>None\<close>. \<open>element\<close> reads the object in slot \<open>i\<close>,
  \<open>construct_at\<close> is the write of a placement \<^verbatim>\<open>new (p + i) T(...)\<close> whose constructor
  has given \<open>x\<close>, \<open>destroy_at\<close> is \<^verbatim>\<open>std::destroy_at(p + i)\<close>.
\<close>

definition element :: "'a block \<Rightarrow> nat \<Rightarrow> 'a option" where
  "element buf i = (if i < length buf then buf ! i else None)"

definition construct_at :: "'a block \<Rightarrow> nat \<Rightarrow> 'a \<Rightarrow> 'a block option" where
  "construct_at buf i x = (if i < length buf then Some (buf[i := Some x]) else None)"

definition destroy_at :: "'a block \<Rightarrow> nat \<Rightarrow> 'a block option" where
  "destroy_at buf i = (if i < length buf then Some (buf[i := None]) else None)"

section \<open>The standard algorithms on blocks\<close>

text \<open>
  Each algorithm is a loop over the slots, and a function of the standard library whose
  precondition is that its ranges lie inside their blocks: called on a range that does
  not, it has undefined behaviour (\<open>None\<close>).

  \<^verbatim>\<open>std::destroy_n(p + first, n)\<close>.
\<close>

fun destroy_n_loop :: "'a block \<Rightarrow> nat \<Rightarrow> nat \<Rightarrow> 'a block" where
  "destroy_n_loop buf first 0 = buf"
| "destroy_n_loop buf first (Suc n) = destroy_n_loop (buf[first := None]) (Suc first) n"

definition destroy_n :: "'a block \<Rightarrow> nat \<Rightarrow> nat \<Rightarrow> 'a block option" where
  "destroy_n buf first n =
     (if first + n \<le> length buf then Some (destroy_n_loop buf first n) else None)"

text \<open>
  \<^verbatim>\<open>std::uninitialized_value_construct_n(p + first, n)\<close>. When a constructor throws, the
  algorithm destroys what it has constructed and rethrows: the block is as it was, so the
  error carries no block.
\<close>

fun uninitialized_value_construct_n_loop ::
  "('a, 'e) env_scheme \<Rightarrow> 'a block \<Rightarrow> nat \<Rightarrow> nat \<Rightarrow> exn + 'a block" where
  "uninitialized_value_construct_n_loop E buf first 0 = Inr buf"
| "uninitialized_value_construct_n_loop E buf first (Suc n) =
     (case value_init E of
        Inl e \<Rightarrow> Inl e
      | Inr x \<Rightarrow> uninitialized_value_construct_n_loop E (buf[first := Some x]) (Suc first) n)"

definition uninitialized_value_construct_n ::
  "('a, 'e) env_scheme \<Rightarrow> 'a block \<Rightarrow> nat \<Rightarrow> nat \<Rightarrow> (exn + 'a block) option" where
  "uninitialized_value_construct_n E buf first n =
     (if first + n \<le> length buf then Some (uninitialized_value_construct_n_loop E buf first n)
      else None)"

text \<open>
  \<^verbatim>\<open>std::uninitialized_copy_n(src + first, n, dst + d_first)\<close>, between two different
  blocks; on a throw the destination is as it was.
\<close>

fun uninitialized_copy_n_loop ::
  "('a, 'e) env_scheme \<Rightarrow> 'a block \<Rightarrow> nat \<Rightarrow> nat \<Rightarrow> 'a block \<Rightarrow> nat \<Rightarrow> exn + 'a block" where
  "uninitialized_copy_n_loop E src first 0 dst d_first = Inr dst"
| "uninitialized_copy_n_loop E src first (Suc n) dst d_first =
     (case copy_construct E (the (src ! first)) of
        Inl e \<Rightarrow> Inl e
      | Inr x \<Rightarrow>
          uninitialized_copy_n_loop E src (Suc first) n (dst[d_first := Some x]) (Suc d_first))"

definition uninitialized_copy_n ::
  "('a, 'e) env_scheme \<Rightarrow> 'a block \<Rightarrow> nat \<Rightarrow> nat \<Rightarrow> 'a block \<Rightarrow> nat
     \<Rightarrow> (exn + 'a block) option" where
  "uninitialized_copy_n E src first n dst d_first =
     (if first + n \<le> length src \<and> d_first + n \<le> length dst
      then Some (uninitialized_copy_n_loop E src first n dst d_first) else None)"

text \<open>
  \<^verbatim>\<open>std::uninitialized_move_n(src + first, n, dst + d_first)\<close>, between two different
  blocks. The sources it has moved from stay moved-from when a later move throws, so the
  error carries the source block; the destination is as it was.
\<close>

fun uninitialized_move_n_loop ::
  "('a, 'e) env_scheme \<Rightarrow> 'a block \<Rightarrow> nat \<Rightarrow> nat \<Rightarrow> 'a block \<Rightarrow> nat
     \<Rightarrow> (exn \<times> 'a block) + ('a block \<times> 'a block)" where
  "uninitialized_move_n_loop E src first 0 dst d_first = Inr (src, dst)"
| "uninitialized_move_n_loop E src first (Suc n) dst d_first =
     (case move_construct E (the (src ! first)) of
        Inl e \<Rightarrow> Inl (e, src)
      | Inr x \<Rightarrow>
          uninitialized_move_n_loop E (src[first := Some (moved_from E x)]) (Suc first) n
            (dst[d_first := Some x]) (Suc d_first))"

definition uninitialized_move_n ::
  "('a, 'e) env_scheme \<Rightarrow> 'a block \<Rightarrow> nat \<Rightarrow> nat \<Rightarrow> 'a block \<Rightarrow> nat
     \<Rightarrow> ((exn \<times> 'a block) + ('a block \<times> 'a block)) option" where
  "uninitialized_move_n E src first n dst d_first =
     (if first + n \<le> length src \<and> d_first + n \<le> length dst
      then Some (uninitialized_move_n_loop E src first n dst d_first) else None)"

text \<open>
  \<^verbatim>\<open>std::copy(src + first, src + last, dst + d_first)\<close>: copy assignment, front to back,
  between two different blocks. A throw leaves the elements already assigned.
\<close>

function std_copy_loop ::
  "('a, 'e) env_scheme \<Rightarrow> 'a block \<Rightarrow> nat \<Rightarrow> nat \<Rightarrow> 'a block \<Rightarrow> nat
     \<Rightarrow> (exn \<times> 'a block) + 'a block" where
  "std_copy_loop E src first lst dst d_first =
     (if first < lst then
        (case copy_assign_throws E (the (dst ! d_first)) (the (src ! first)) of
           Some e \<Rightarrow> Inl (e, dst)
         | None \<Rightarrow>
             std_copy_loop E src (Suc first) lst (dst[d_first := src ! first]) (Suc d_first))
      else Inr dst)"
  by pat_completeness auto
termination
  by (relation "measure (\<lambda>(E, src, first, lst, dst, d_first). lst - first)") auto

definition std_copy ::
  "('a, 'e) env_scheme \<Rightarrow> 'a block \<Rightarrow> nat \<Rightarrow> nat \<Rightarrow> 'a block \<Rightarrow> nat
     \<Rightarrow> ((exn \<times> 'a block) + 'a block) option" where
  "std_copy E src first lst dst d_first =
     (if first \<le> lst \<and> lst \<le> length src \<and> d_first + (lst - first) \<le> length dst
      then Some (std_copy_loop E src first lst dst d_first) else None)"

text \<open>
  \<^verbatim>\<open>std::move(p + first, p + last, p + d_first)\<close>: move assignment, front to back, inside
  one block.
\<close>

function std_move_loop ::
  "('a, 'e) env_scheme \<Rightarrow> 'a block \<Rightarrow> nat \<Rightarrow> nat \<Rightarrow> nat \<Rightarrow> (exn \<times> 'a block) + 'a block" where
  "std_move_loop E buf first lst d_first =
     (if first < lst then
        (case move_assign_throws E (the (buf ! d_first)) (the (buf ! first)) of
           Some e \<Rightarrow> Inl (e, buf)
         | None \<Rightarrow>
             std_move_loop E
               (buf[d_first := buf ! first, first := Some (moved_from E (the (buf ! first)))])
               (Suc first) lst (Suc d_first))
      else Inr buf)"
  by pat_completeness auto
termination
  by (relation "measure (\<lambda>(E, buf, first, lst, d_first). lst - first)") auto


text \<open>
  \<^verbatim>\<open>std::move_backward(p + first, p + last, p + d_last)\<close>: move assignment, back to
  front, inside one block.
\<close>

function move_backward_loop ::
  "('a, 'e) env_scheme \<Rightarrow> 'a block \<Rightarrow> nat \<Rightarrow> nat \<Rightarrow> nat \<Rightarrow> (exn \<times> 'a block) + 'a block" where
  "move_backward_loop E buf first lst d_lst =
     (if first < lst then
        (case move_assign_throws E (the (buf ! (d_lst - 1))) (the (buf ! (lst - 1))) of
           Some e \<Rightarrow> Inl (e, buf)
         | None \<Rightarrow>
             move_backward_loop E
               (buf[d_lst - 1 := buf ! (lst - 1),
                    lst - 1 := Some (moved_from E (the (buf ! (lst - 1))))])
               first (lst - 1) (d_lst - 1))
      else Inr buf)"
  by pat_completeness auto
termination
  by (relation "measure (\<lambda>(E, buf, first, lst, d_lst). lst - first)") auto

definition move_backward ::
  "('a, 'e) env_scheme \<Rightarrow> 'a block \<Rightarrow> nat \<Rightarrow> nat \<Rightarrow> nat
     \<Rightarrow> ((exn \<times> 'a block) + 'a block) option" where
  "move_backward E buf first lst d_lst =
     (if first \<le> lst \<and> lst \<le> length buf \<and> d_lst \<le> length buf \<and> lst - first \<le> d_lst
      then Some (move_backward_loop E buf first lst d_lst) else None)"

declare std_copy_loop.simps [simp del] std_move_loop.simps [simp del]
  move_backward_loop.simps [simp del]

section \<open>Vector\<close>

record 'a Vector =
  data_v :: "'a RawMemory"
  size_v :: nat

text \<open>
  How a member function ends: it returns (with the object as it is then, and the value
  returned), it throws (with the object as the exception leaves it), or it has undefined
  behaviour (a failed \<^verbatim>\<open>assert\<close>, an access outside the block, a pointer that may not
  be freed). A constructor that throws leaves no object.
\<close>

datatype ('a, 'r) outcome =
  Returns "'a Vector" 'r
| Throws exn "'a Vector"
| Undefined_behaviour

datatype 'a constructed =
  Constructed "'a Vector"
| Construction_throws exn
| Construction_undefined

abbreviation slots :: "'a Vector \<Rightarrow> 'a block" where
  "slots v \<equiv> buffer_m (data_v v)"

definition set_slots :: "'a Vector \<Rightarrow> 'a block \<Rightarrow> 'a Vector" where
  "set_slots v b = v\<lparr>data_v := (data_v v)\<lparr>buffer_m := b\<rparr>\<rparr>"

definition Size :: "'a Vector \<Rightarrow> nat" where
  "Size v = size_v v"

definition Capacity :: "'a Vector \<Rightarrow> nat" where
  "Capacity v = RawMemory_Capacity (data_v v)"

subsection \<open>Constructors\<close>

definition Vector_default :: "'a Vector" where
  "Vector_default = \<lparr>data_v = RawMemory_default, size_v = 0\<rparr>"

text \<open>\<^verbatim>\<open>explicit Vector(size_t size)\<close>.\<close>

definition Vector_new :: "('a, 'e) env_scheme \<Rightarrow> nat \<Rightarrow> 'a constructed" where
  "Vector_new E n =
     (case RawMemory_new E n of
        Inl e \<Rightarrow> Construction_throws e
      | Inr d \<Rightarrow>
          (case uninitialized_value_construct_n E (buffer_m d) 0 n of
             None \<Rightarrow> Construction_undefined
           | Some (Inl e) \<Rightarrow> Construction_throws e
           | Some (Inr b) \<Rightarrow> Constructed \<lparr>data_v = d\<lparr>buffer_m := b\<rparr>, size_v = n\<rparr>))"

text \<open>\<^verbatim>\<open>Vector(const Vector& other)\<close>.\<close>

definition Vector_copy :: "('a, 'e) env_scheme \<Rightarrow> 'a Vector \<Rightarrow> 'a constructed" where
  "Vector_copy E other =
     (case RawMemory_new E (size_v other) of
        Inl e \<Rightarrow> Construction_throws e
      | Inr d \<Rightarrow>
          (case uninitialized_copy_n E (slots other) 0 (size_v other) (buffer_m d) 0 of
             None \<Rightarrow> Construction_undefined
           | Some (Inl e) \<Rightarrow> Construction_throws e
           | Some (Inr b) \<Rightarrow>
               Constructed \<lparr>data_v = d\<lparr>buffer_m := b\<rparr>, size_v = size_v other\<rparr>))"

text \<open>\<^verbatim>\<open>Vector(Vector&& other)\<close>: the new object and what is left of \<open>other\<close>.\<close>

definition Vector_move :: "'a Vector \<Rightarrow> 'a Vector \<times> 'a Vector" where
  "Vector_move other =
     (\<lparr>data_v = data_v other, size_v = size_v other\<rparr>,
      other\<lparr>data_v := RawMemory_default, size_v := 0\<rparr>)"

subsection \<open>Assignment and Swap\<close>

definition CopyVector :: "('a, 'e) env_scheme \<Rightarrow> 'a Vector \<Rightarrow> 'a Vector \<Rightarrow> ('a, unit) outcome" where
  "CopyVector E this other =
     (case std_copy E (slots other) 0 (min (size_v this) (size_v other)) (slots this) 0 of
        None \<Rightarrow> Undefined_behaviour
      | Some (Inl (e, b)) \<Rightarrow> Throws e (set_slots this b)
      | Some (Inr b) \<Rightarrow>
          if size_v this \<le> size_v other then
            (case uninitialized_copy_n E (slots other) (size_v this)
                    (size_v other - size_v this) b (size_v this) of
               None \<Rightarrow> Undefined_behaviour
             | Some (Inl e) \<Rightarrow> Throws e (set_slots this b)
             | Some (Inr b') \<Rightarrow> Returns ((set_slots this b')\<lparr>size_v := size_v other\<rparr>) ())
          else
            (case destroy_n b (size_v other) (size_v this - size_v other) of
               None \<Rightarrow> Undefined_behaviour
             | Some b' \<Rightarrow> Returns ((set_slots this b')\<lparr>size_v := size_v other\<rparr>) ()))"

text \<open>
  \<^verbatim>\<open>void Swap(Vector& other)\<close>, on two different objects (on one object it does
  nothing).
\<close>

definition Swap :: "'a Vector \<Rightarrow> 'a Vector \<Rightarrow> 'a Vector \<times> 'a Vector" where
  "Swap this other =
     (let (d, d') = RawMemory_Swap (data_v this) (data_v other)
      in (this\<lparr>data_v := d, size_v := size_v other\<rparr>,
          other\<lparr>data_v := d', size_v := size_v this\<rparr>))"

text \<open>
  \<^verbatim>\<open>Vector& operator=(const Vector& other)\<close>. Objects have no address here, so whether
  \<^verbatim>\<open>this == &other\<close> is the argument \<open>same\<close>. The copy that took the old storage in the
  swap is destroyed on return.
\<close>

definition operator_assign_copy ::
  "('a, 'e) env_scheme \<Rightarrow> bool \<Rightarrow> 'a Vector \<Rightarrow> 'a Vector \<Rightarrow> ('a, unit) outcome" where
  "operator_assign_copy E same this other =
     (if \<not> same then
        (if size_v other \<le> RawMemory_Capacity (data_v this) then CopyVector E this other
         else
           (case Vector_copy E other of
              Construction_throws e \<Rightarrow> Throws e this
            | Construction_undefined \<Rightarrow> Undefined_behaviour
            | Constructed other_copy \<Rightarrow> Returns (fst (Swap this other_copy)) ()))
      else Returns this ())"

text \<open>\<^verbatim>\<open>Vector& operator=(Vector&& other) noexcept\<close>: the two objects afterwards.\<close>

definition operator_assign_move :: "bool \<Rightarrow> 'a Vector \<Rightarrow> 'a Vector \<Rightarrow> 'a Vector \<times> 'a Vector" where
  "operator_assign_move same this other = (if \<not> same then Swap this other else (this, other))"

subsection \<open>Reserve and Resize\<close>

text \<open>
  The \<^verbatim>\<open>if constexpr\<close> that Reserve, PushBack and Emplace each contain: move the
  elements when \<open>T\<close>'s move constructor is \<^verbatim>\<open>noexcept\<close> or \<open>T\<close> cannot be copied, copy
  them otherwise. The result is the source block and the destination block.
\<close>

definition relocate_n ::
  "('a, 'e) env_scheme \<Rightarrow> 'a block \<Rightarrow> nat \<Rightarrow> nat \<Rightarrow> 'a block \<Rightarrow> nat
     \<Rightarrow> ((exn \<times> 'a block) + ('a block \<times> 'a block)) option" where
  "relocate_n E src first n dst d_first =
     (if is_nothrow_move_constructible E \<or> \<not> is_copy_constructible E then
        uninitialized_move_n E src first n dst d_first
      else
        (case uninitialized_copy_n E src first n dst d_first of
           None \<Rightarrow> None
         | Some (Inl e) \<Rightarrow> Some (Inl (e, src))
         | Some (Inr dst') \<Rightarrow> Some (Inr (src, dst'))))"

definition Reserve :: "('a, 'e) env_scheme \<Rightarrow> 'a Vector \<Rightarrow> nat \<Rightarrow> ('a, unit) outcome" where
  "Reserve E this new_capacity =
     (if RawMemory_Capacity (data_v this) \<ge> new_capacity then Returns this ()
      else
        (case RawMemory_new E new_capacity of
           Inl e \<Rightarrow> Throws e this
         | Inr new_data \<Rightarrow>
             (case relocate_n E (slots this) 0 (size_v this) (buffer_m new_data) 0 of
                None \<Rightarrow> Undefined_behaviour
              | Some (Inl (e, src)) \<Rightarrow> Throws e (set_slots this src)
              | Some (Inr (src, dst)) \<Rightarrow>
                  (case destroy_n src 0 (size_v this) of
                     None \<Rightarrow> Undefined_behaviour
                   | Some old \<Rightarrow>
                       (let (d, d') = RawMemory_Swap ((data_v this)\<lparr>buffer_m := old\<rparr>)
                                        (new_data\<lparr>buffer_m := dst\<rparr>)
                        in Returns (this\<lparr>data_v := d\<rparr>) ())))))"

definition Resize :: "('a, 'e) env_scheme \<Rightarrow> 'a Vector \<Rightarrow> nat \<Rightarrow> ('a, unit) outcome" where
  "Resize E this new_size =
     (case Reserve E this new_size of
        Returns v u \<Rightarrow>
          (if new_size > size_v v then
             (case uninitialized_value_construct_n E (slots v) (size_v v) (new_size - size_v v) of
                None \<Rightarrow> Undefined_behaviour
              | Some (Inl e) \<Rightarrow> Throws e v
              | Some (Inr b) \<Rightarrow> Returns ((set_slots v b)\<lparr>size_v := new_size\<rparr>) ())
           else
             (case destroy_n (slots v) new_size (size_v v - new_size) of
                None \<Rightarrow> Undefined_behaviour
              | Some b \<Rightarrow> Returns ((set_slots v b)\<lparr>size_v := new_size\<rparr>) ()))
      | Throws e v \<Rightarrow> Throws e v
      | Undefined_behaviour \<Rightarrow> Undefined_behaviour)"

subsection \<open>The argument of PushBack, Emplace and Insert\<close>

text \<open>
  The new element is made by \<^verbatim>\<open>T(std::forward<Args>(args)...)\<close>, and the argument may
  refer to an element of the vector itself. A reference to a \<open>T\<close> is to an object outside
  the vector, of which only the value matters, or to the element at an index. The
  arguments are: a reference that is copied from (\<^verbatim>\<open>const T&\<close>), a reference that is
  moved from (\<^verbatim>\<open>T&&\<close>), or anything else, which does not touch the vector and of which
  only what the constructor gives matters.

  \<open>new_element\<close> runs the constructor: it gives the value of the new element and the
  block of the vector afterwards (moving from an element leaves it moved-from), or the
  exception, or it reads through a reference to no element (undefined behaviour).
\<close>

datatype 'a reference = Outside 'a | Element nat

datatype 'a args = Construct "exn + 'a" | Copy "'a reference" | Move "'a reference"

datatype 'a made = Made 'a "'a block" | Failed exn | Dangling

fun referent :: "'a Vector \<Rightarrow> 'a reference \<Rightarrow> 'a option" where
  "referent this (Outside y) = Some y"
| "referent this (Element i) = (if i < size_v this then element (slots this) i else None)"

fun moved_from_referent ::
  "('a, 'e) env_scheme \<Rightarrow> 'a Vector \<Rightarrow> 'a reference \<Rightarrow> 'a \<Rightarrow> 'a block" where
  "moved_from_referent E this (Outside y) x = slots this"
| "moved_from_referent E this (Element i) x = (slots this)[i := Some (moved_from E x)]"

fun new_element :: "('a, 'e) env_scheme \<Rightarrow> 'a Vector \<Rightarrow> 'a args \<Rightarrow> 'a made" where
  "new_element E this (Construct r) =
     (case r of Inl e \<Rightarrow> Failed e | Inr x \<Rightarrow> Made x (slots this))"
| "new_element E this (Copy r) =
     (case referent this r of
        None \<Rightarrow> Dangling
      | Some y \<Rightarrow>
          (case copy_construct E y of Inl e \<Rightarrow> Failed e | Inr x \<Rightarrow> Made x (slots this)))"
| "new_element E this (Move r) =
     (case referent this r of
        None \<Rightarrow> Dangling
      | Some y \<Rightarrow>
          (case move_construct E y of
             Inl e \<Rightarrow> Failed e
           | Inr x \<Rightarrow> Made x (moved_from_referent E this r x)))"

subsection \<open>Appending and removing at the end\<close>

text \<open>
  \<^verbatim>\<open>void PushBack(Obj&& obj)\<close>. In the branch that reallocates, the new element is
  constructed in the new storage first, then the elements are relocated from the block as
  the constructor left it. \<^verbatim>\<open>size_ * 2\<close> and \<^verbatim>\<open>size_++\<close> are taken in \<^verbatim>\<open>size_t\<close>.
\<close>

definition PushBack ::
  "('a, 'e) env_scheme \<Rightarrow> 'a Vector \<Rightarrow> 'a args \<Rightarrow> ('a, unit) outcome" where
  "PushBack E this obj =
     (if size_v this \<ge> RawMemory_Capacity (data_v this) then
        (case RawMemory_new E (if size_v this = 0 then 1 else size_t (size_v this * 2)) of
           Inl e \<Rightarrow> Throws e this
         | Inr new_data \<Rightarrow>
             (case new_element E this obj of
                Dangling \<Rightarrow> Undefined_behaviour
              | Failed e \<Rightarrow> Throws e this
              | Made x b \<Rightarrow>
                  (case construct_at (buffer_m new_data) (size_v this) x of
                     None \<Rightarrow> Undefined_behaviour
                   | Some nb \<Rightarrow>
                       (case relocate_n E b 0 (size_v this) nb 0 of
                          None \<Rightarrow> Undefined_behaviour
                        | Some (Inl (e, src)) \<Rightarrow> Throws e (set_slots this src)
                        | Some (Inr (src, dst)) \<Rightarrow>
                            (case destroy_n src 0 (size_v this) of
                               None \<Rightarrow> Undefined_behaviour
                             | Some old \<Rightarrow>
                                 (let (d, d') =
                                        RawMemory_Swap ((data_v this)\<lparr>buffer_m := old\<rparr>)
                                          (new_data\<lparr>buffer_m := dst\<rparr>)
                                  in Returns (this\<lparr>data_v := d,
                                                   size_v := size_t (size_v this + 1)\<rparr>) ()))))))
      else
        (case new_element E this obj of
           Dangling \<Rightarrow> Undefined_behaviour
         | Failed e \<Rightarrow> Throws e this
         | Made x b \<Rightarrow>
             (case construct_at b (size_v this) x of
                None \<Rightarrow> Undefined_behaviour
              | Some b' \<Rightarrow>
                  Returns ((set_slots this b')\<lparr>size_v := size_t (size_v this + 1)\<rparr>) ())))"

definition PopBack :: "'a Vector \<Rightarrow> ('a, unit) outcome" where
  "PopBack this =
     (if size_v this > 0 then
        (case destroy_at (slots this) (size_v this - 1) of
           None \<Rightarrow> Undefined_behaviour
         | Some b \<Rightarrow> Returns ((set_slots this b)\<lparr>size_v := size_v this - 1\<rparr>) ())
      else Returns this ())"

subsection \<open>Emplace, Insert, Erase\<close>

text \<open>
  The \<^verbatim>\<open>try\<close> block of Emplace (the branch with spare capacity).
  \<^verbatim>\<open>std::forward<T>\<close> of an element casts it to an rvalue, so the copy of the last
  element in the tail slot is made by \<open>T\<close>'s move constructor. The result is the vector
  when the block is left, by an exception (\<open>Inl\<close>) or at its end (\<open>Inr\<close>); \<open>None\<close> is
  undefined behaviour.
\<close>

definition Emplace_try_block ::
  "('a, 'e) env_scheme \<Rightarrow> 'a Vector \<Rightarrow> nat \<Rightarrow> 'a args
     \<Rightarrow> ((exn \<times> 'a Vector) + 'a Vector) option" where
  "Emplace_try_block E this position args =
     (if position = size_v this then
        (case new_element E this args of
           Dangling \<Rightarrow> None
         | Failed e \<Rightarrow> Some (Inl (e, this))
         | Made x b \<Rightarrow>
             (case construct_at b (size_v this) x of
                None \<Rightarrow> None
              | Some b' \<Rightarrow> Some (Inr (set_slots this b'))))
      else
        (case new_element E this args of
           Dangling \<Rightarrow> None
         | Failed e \<Rightarrow> Some (Inl (e, this))
         | Made new_item b0 \<Rightarrow>
             (case element b0 (size_v this - 1) of
                None \<Rightarrow> None
              | Some y \<Rightarrow>
                  (case move_construct E y of
                     Inl e \<Rightarrow> Some (Inl (e, set_slots this b0))
                   | Inr x \<Rightarrow>
                       (case construct_at b0 (size_v this) x of
                          None \<Rightarrow> None
                        | Some b1 \<Rightarrow>
                            (let b = b1[size_v this - 1 := Some (moved_from E x)]
                             in case move_backward E b position (size_v this - 1)
                                       (size_v this) of
                                  None \<Rightarrow> None
                                | Some (Inl (e, b')) \<Rightarrow> Some (Inl (e, set_slots this b'))
                                | Some (Inr b') \<Rightarrow>
                                    (case move_assign_throws E (the (b' ! position))
                                            new_item of
                                       Some e \<Rightarrow> Some (Inl (e, set_slots this b'))
                                     | None \<Rightarrow>
                                         Some (Inr (set_slots this
                                                      (b'[position := Some new_item]))))))))))"

text \<open>The handler: \<^verbatim>\<open>catch (...) { operator delete(end()); throw; }\<close>.\<close>

definition Emplace_catch :: "exn \<Rightarrow> 'a Vector \<Rightarrow> ('a, nat) outcome" where
  "Emplace_catch e this =
     (case operator_delete (data_v this) (size_v this) of
        None \<Rightarrow> Undefined_behaviour
      | Some m \<Rightarrow> Throws e (this\<lparr>data_v := m\<rparr>))"

text \<open>
  \<^verbatim>\<open>iterator Emplace(const_iterator pos, Args&&... args)\<close>. An iterator is the index of
  its slot: \<open>position\<close> is \<^verbatim>\<open>pos - begin()\<close>, and the value returned is the index of
  \<^verbatim>\<open>begin() + position\<close>.
\<close>

definition Emplace ::
  "('a, 'e) env_scheme \<Rightarrow> 'a Vector \<Rightarrow> nat \<Rightarrow> 'a args \<Rightarrow> ('a, nat) outcome" where
  "Emplace E this position args =
     (if \<not> position \<le> size_v this then Undefined_behaviour
      else if size_v this < RawMemory_Capacity (data_v this) then
        (case Emplace_try_block E this position args of
           None \<Rightarrow> Undefined_behaviour
         | Some (Inl (e, v)) \<Rightarrow> Emplace_catch e v
         | Some (Inr v) \<Rightarrow> Returns (v\<lparr>size_v := size_t (size_v v + 1)\<rparr>) position)
      else
        (case RawMemory_new E (if size_v this = 0 then 1 else size_t (size_v this * 2)) of
           Inl e \<Rightarrow> Throws e this
         | Inr new_data \<Rightarrow>
             (case new_element E this args of
                Dangling \<Rightarrow> Undefined_behaviour
              | Failed e \<Rightarrow> Throws e this
              | Made x b \<Rightarrow>
                  (case construct_at (buffer_m new_data) position x of
                     None \<Rightarrow> Undefined_behaviour
                   | Some nb \<Rightarrow>
                       (case relocate_n E b 0 position nb 0 of
                          None \<Rightarrow> Undefined_behaviour
                        | Some (Inl (e, src)) \<Rightarrow> Throws e (set_slots this src)
                        | Some (Inr (src, dst)) \<Rightarrow>
                            (case relocate_n E src position (size_v this - position)
                                    dst (position + 1) of
                               None \<Rightarrow> Undefined_behaviour
                             | Some (Inl (e, src')) \<Rightarrow> Throws e (set_slots this src')
                             | Some (Inr (src', dst')) \<Rightarrow>
                                 (case destroy_n src' 0 (size_v this) of
                                    None \<Rightarrow> Undefined_behaviour
                                  | Some old \<Rightarrow>
                                      (let (d, d') =
                                             RawMemory_Swap
                                               ((data_v this)\<lparr>buffer_m := old\<rparr>)
                                               (new_data\<lparr>buffer_m := dst'\<rparr>)
                                       in Returns
                                            (this\<lparr>data_v := d,
                                                  size_v := size_t (size_v this + 1)\<rparr>)
                                            position))))))))"

text \<open>
  \<^verbatim>\<open>T& EmplaceBack(Args&&... args)\<close> is \<^verbatim>\<open>*Emplace(end(), args...)\<close>; it returns the
  new element.
\<close>

definition EmplaceBack ::
  "('a, 'e) env_scheme \<Rightarrow> 'a Vector \<Rightarrow> 'a args \<Rightarrow> ('a, 'a) outcome" where
  "EmplaceBack E this args =
     (case Emplace E this (size_v this) args of
        Returns v it \<Rightarrow>
          (case element (slots v) it of
             None \<Rightarrow> Undefined_behaviour
           | Some x \<Rightarrow> Returns v x)
      | Throws e v \<Rightarrow> Throws e v
      | Undefined_behaviour \<Rightarrow> Undefined_behaviour)"




section \<open>The class invariant and the sequence a vector holds\<close>

text \<open>
  The block has \<open>capacity_m\<close> slots, \<open>size_v\<close> is at most that, the slots below
  \<open>size_v\<close> hold live objects and the others are uninitialised.
\<close>

definition invariant :: "'a Vector \<Rightarrow> bool" where
  "invariant v \<longleftrightarrow>
     length (slots v) = capacity_m (data_v v) \<and>
     size_v v \<le> capacity_m (data_v v) \<and>
     list_all (\<lambda>s. s \<noteq> None) (take (size_v v) (slots v)) \<and>
     list_all (\<lambda>s. s = None) (drop (size_v v) (slots v))"

definition elems :: "'a Vector \<Rightarrow> 'a list" where
  "elems v = map the (take (size_v v) (slots v))"

text \<open>
  The block of a vector is an object of \<open>T\<close>s in memory: \<open>T\<close> has a size, and the block
  has at most \<open>PTRDIFF_MAX\<close> bytes.
\<close>

definition in_memory :: "('a, 'e) env_scheme \<Rightarrow> 'a Vector \<Rightarrow> bool" where
  "in_memory E v \<longleftrightarrow>
     0 < sizeof_T E \<and> sizeof_T E \<le> PTRDIFF_MAX \<and>
     capacity_m (data_v v) * sizeof_T E \<le> PTRDIFF_MAX"

text \<open>
  What the elements are once the new element has been made from \<open>args\<close>: as they were,
  but for an element that was moved from.
\<close>

fun after_args :: "('a, 'e) env_scheme \<Rightarrow> 'a args \<Rightarrow> 'a list \<Rightarrow> 'a list" where
  "after_args E (Move (Element i)) xs = xs[i := moved_from E (xs ! i)]"
| "after_args E args xs = xs"

text \<open>
  An element type of 4 bytes none of whose operations throws, and an allocator that
  grants every request.
\<close>

definition quiet :: "'a \<Rightarrow> 'a env" where
  "quiet d =
     \<lparr>sizeof_T = 4, alloc_fails = (\<lambda>n. False), is_nothrow_move_constructible = True,
      is_copy_constructible = True, value_init = Inr d,
      copy_ctor_throws = (\<lambda>x. None), move_ctor_throws = (\<lambda>x. None),
      copy_assign_throws = (\<lambda>x y. None), move_assign_throws = (\<lambda>x y. None),
      moved_from = (\<lambda>x. x)\<rparr>"

text \<open>
  Element types for the examples: the copy constructor throws on the value \<open>k\<close>; the
  move assignment throws when the value \<open>k\<close> is assigned; a moved-from object holds 0.
\<close>

definition copy_throws_on :: "nat \<Rightarrow> nat env" where
  "copy_throws_on k =
     (quiet 0)\<lparr>copy_ctor_throws := (\<lambda>x. if x = k then Some (T_exception 1) else None)\<rparr>"

definition move_assign_throws_on :: "nat \<Rightarrow> nat env" where
  "move_assign_throws_on k =
     (quiet 0)\<lparr>move_assign_throws := (\<lambda>d s. if s = k then Some (T_exception 2) else None)\<rparr>"

definition moved_from_is_zero :: "nat env" where
  "moved_from_is_zero = (quiet 0)\<lparr>moved_from := (\<lambda>x. 0)\<rparr>"

text \<open>The vector that holds \<open>xs\<close> in a block of \<open>length xs + spare\<close> slots.\<close>

definition mk_vector :: "'a list \<Rightarrow> nat \<Rightarrow> 'a Vector" where
  "mk_vector xs spare =
     \<lparr>data_v = \<lparr>buffer_m = map Some xs @ replicate spare None,
                capacity_m = length xs + spare\<rparr>,
      size_v = length xs\<rparr>"

section \<open>Properties of the standard algorithms and of the allocator\<close>

lemma destroy_n_conv:
  "first + n \<le> length buf \<Longrightarrow>
   destroy_n_loop buf first n = take first buf @ replicate n None @ drop (first + n) buf"
proof (induction n arbitrary: buf first)
  case 0
  then show ?case by simp
next
  case (Suc n)
  then have "first < length buf" by simp
  then have upd: "buf[first := None] = take first buf @ None # drop (Suc first) buf"
    by (simp add: upd_conv_take_nth_drop)
  have "destroy_n_loop (buf[first := None]) (Suc first) n =
        take (Suc first) (buf[first := None]) @ replicate n None
          @ drop (Suc first + n) (buf[first := None])"
    using Suc.prems by (intro Suc.IH) simp
  also have "take (Suc first) (buf[first := None]) = take first buf @ [None]"
    using \<open>first < length buf\<close> by (simp add: upd)
  also have "drop (Suc first + n) (buf[first := None]) = drop (first + Suc n) buf"
    by simp
  finally show ?case by (simp add: replicate_app_Cons_same)
qed

lemma uninitialized_value_construct_n_Inr:
  "value_init E = Inr d \<Longrightarrow> first + n \<le> length buf \<Longrightarrow>
   uninitialized_value_construct_n_loop E buf first n =
     Inr (take first buf @ replicate n (Some d) @ drop (first + n) buf)"
proof (induction n arbitrary: buf first)
  case 0
  then show ?case by simp
next
  case (Suc n)
  then have lt: "first < length buf" by simp
  let ?b = "buf[first := Some d]"
  have "uninitialized_value_construct_n_loop E ?b (Suc first) n =
        Inr (take (Suc first) ?b @ replicate n (Some d) @ drop (Suc first + n) ?b)"
    using Suc.prems by (intro Suc.IH) simp_all
  moreover have "take (Suc first) ?b = take first buf @ [Some d]"
    using lt by (simp add: upd_conv_take_nth_drop)
  moreover have "drop (Suc first + n) ?b = drop (first + Suc n) buf"
    by simp
  ultimately show ?case
    using Suc.prems(1) by (simp add: replicate_app_Cons_same)
qed

lemma uninitialized_value_construct_n_Inl:
  "value_init E = Inl e \<Longrightarrow>
   uninitialized_value_construct_n_loop E buf first n = (if n = 0 then Inr buf else Inl e)"
  by (cases n) simp_all

lemma uninitialized_copy_n_Inr:
  "uninitialized_copy_n_loop E src first n dst d_first = Inr b \<Longrightarrow>
   first + n \<le> length src \<Longrightarrow> d_first + n \<le> length dst \<Longrightarrow>
   b = take d_first dst @ map (\<lambda>s. Some (the s)) (take n (drop first src))
         @ drop (d_first + n) dst"
proof (induction n arbitrary: first dst d_first)
  case 0
  then show ?case by simp
next
  case (Suc n)
  let ?x = "the (src ! first)"
  let ?d = "dst[d_first := Some ?x]"
  from Suc.prems(1) have rec: "uninitialized_copy_n_loop E src (Suc first) n ?d (Suc d_first) = Inr b"
    by (auto simp: copy_construct_def split: option.splits)
  have lt: "d_first < length dst" "first < length src" using Suc.prems by simp_all
  have "b = take (Suc d_first) ?d @ map (\<lambda>s. Some (the s)) (take n (drop (Suc first) src))
              @ drop (Suc d_first + n) ?d"
    using Suc.prems by (intro Suc.IH [OF rec]) simp_all
  moreover have "take (Suc d_first) ?d = take d_first dst @ [Some ?x]"
    using lt by (simp add: upd_conv_take_nth_drop)
  moreover have "drop (Suc d_first + n) ?d = drop (d_first + Suc n) dst" by simp
  moreover have "take (Suc n) (drop first src) = src ! first # take n (drop (Suc first) src)"
    using lt by (simp add: Cons_nth_drop_Suc [symmetric])
  ultimately show ?case by simp
qed

lemma uninitialized_move_n_Inr:
  "uninitialized_move_n_loop E src first n dst d_first = Inr (src', dst') \<Longrightarrow>
   first + n \<le> length src \<Longrightarrow> d_first + n \<le> length dst \<Longrightarrow>
   dst' = take d_first dst @ map (\<lambda>s. Some (the s)) (take n (drop first src))
            @ drop (d_first + n) dst \<and>
   length src' = length src \<and> drop (first + n) src' = drop (first + n) src"
proof (induction n arbitrary: src first dst d_first)
  case 0
  then show ?case by simp
next
  case (Suc n)
  let ?x = "the (src ! first)"
  let ?s = "src[first := Some (moved_from E ?x)]"
  let ?d = "dst[d_first := Some ?x]"
  from Suc.prems(1) have rec:
    "uninitialized_move_n_loop E ?s (Suc first) n ?d (Suc d_first) = Inr (src', dst')"
    by (auto simp: move_construct_def split: option.splits)
  have lt: "d_first < length dst" "first < length src" using Suc.prems by simp_all
  have IH: "dst' = take (Suc d_first) ?d @ map (\<lambda>s. Some (the s)) (take n (drop (Suc first) ?s))
              @ drop (Suc d_first + n) ?d \<and>
            length src' = length ?s \<and> drop (Suc first + n) src' = drop (Suc first + n) ?s"
    using Suc.prems by (intro Suc.IH [OF rec]) simp_all
  moreover have "take (Suc d_first) ?d = take d_first dst @ [Some ?x]"
    using lt by (simp add: upd_conv_take_nth_drop)
  moreover have "drop (Suc d_first + n) ?d = drop (d_first + Suc n) dst" by simp
  moreover have "take (Suc n) (drop first src) = src ! first # take n (drop (Suc first) src)"
    using lt by (simp add: Cons_nth_drop_Suc [symmetric])
  ultimately show ?case by simp
qed

lemma move_backward_Inr:
  "move_backward_loop E buf first lst (Suc lst) = Inr b' \<Longrightarrow> lst < length buf \<Longrightarrow> first \<le> lst \<Longrightarrow>
   length b' = length buf \<and>
   (\<forall>i<length buf. b' ! i =
      (if first < i \<and> i \<le> lst then buf ! (i - 1)
       else if i = first \<and> first < lst then Some (moved_from E (the (buf ! first)))
       else buf ! i))"
proof (induction "lst - first" arbitrary: buf lst)
  case 0
  then show ?case by (auto simp: move_backward_loop.simps)
next
  case (Suc k)
  then have lt: "first < lst" by simp
  let ?b = "buf[lst := buf ! (lst - 1), lst - 1 := Some (moved_from E (the (buf ! (lst - 1))))]"
  from Suc.prems(1) lt have rec: "move_backward_loop E ?b first (lst - 1) (Suc (lst - 1)) = Inr b'"
    by (subst (asm) move_backward_loop.simps) (auto split: option.splits)
  have "length b' = length ?b \<and>
   (\<forall>i<length ?b. b' ! i =
      (if first < i \<and> i \<le> lst - 1 then ?b ! (i - 1)
       else if i = first \<and> first < lst - 1 then Some (moved_from E (the (?b ! first)))
       else ?b ! i))"
    using Suc.prems Suc.hyps(2) lt by (intro Suc.hyps(1) [OF _ rec]) simp_all
  then show ?case
    using lt Suc.prems(2) by (auto simp: nth_list_update)
qed


lemma std_copy_Inr:
  "std_copy_loop E src first lst dst d_first = Inr b \<Longrightarrow>
   lst \<le> length src \<Longrightarrow> d_first + (lst - first) \<le> length dst \<Longrightarrow>
   b = take d_first dst @ take (lst - first) (drop first src)
         @ drop (d_first + (lst - first)) dst"
proof (induction "lst - first" arbitrary: first dst d_first)
  case 0
  then show ?case by (simp add: std_copy_loop.simps)
next
  case (Suc k)
  then have lt: "first < lst" by simp
  let ?d = "dst[d_first := src ! first]"
  from Suc.prems(1) lt have rec: "std_copy_loop E src (Suc first) lst ?d (Suc d_first) = Inr b"
    by (subst (asm) std_copy_loop.simps) (auto split: option.splits)
  have lt2: "d_first < length dst" "first < length src" using Suc.prems lt by simp_all
  have "b = take (Suc d_first) ?d @ take (lst - Suc first) (drop (Suc first) src)
         @ drop (Suc d_first + (lst - Suc first)) ?d"
    using Suc.prems Suc.hyps(2) lt by (intro Suc.hyps(1) [OF _ rec]) simp_all
  moreover have "take (Suc d_first) ?d = take d_first dst @ [src ! first]"
    using lt2 by (simp add: upd_conv_take_nth_drop)
  moreover have "drop (Suc d_first + (lst - Suc first)) ?d = drop (d_first + (lst - first)) dst"
    using lt by (simp add: Suc_diff_Suc)
  moreover have "take (lst - first) (drop first src)
                   = src ! first # take (lst - Suc first) (drop (Suc first) src)"
    using lt lt2 by (simp add: Cons_nth_drop_Suc [symmetric] Suc_diff_Suc take_Suc_Cons [symmetric] del: take_Suc_Cons)
  ultimately show ?case by simp
qed

lemma uninitialized_copy_n_total:
  "(\<And>x. copy_ctor_throws E x = None) \<Longrightarrow>
   \<exists>b. uninitialized_copy_n_loop E src first n dst d_first = Inr b"
  by (induction n arbitrary: first dst d_first) (simp_all add: copy_construct_def)

lemma uninitialized_move_n_total:
  "(\<And>x. move_ctor_throws E x = None) \<Longrightarrow>
   \<exists>s b. uninitialized_move_n_loop E src first n dst d_first = Inr (s, b)"
  by (induction n arbitrary: src first dst d_first) (simp_all add: move_construct_def)



lemma copy_construct_alloc:
  "copy_construct (E\<lparr>alloc_fails := f\<rparr>) x = copy_construct E x"
  by (simp add: copy_construct_def)

lemma uninitialized_copy_n_alloc:
  "uninitialized_copy_n_loop (E\<lparr>alloc_fails := f\<rparr>) src first n dst d_first
     = uninitialized_copy_n_loop E src first n dst d_first"
  by (induction n arbitrary: first dst d_first)
    (simp_all add: copy_construct_alloc split: sum.splits)

lemma std_copy_alloc:
  "std_copy_loop (E\<lparr>alloc_fails := f\<rparr>) src first lst dst d_first
     = std_copy_loop E src first lst dst d_first"
proof (induction "lst - first" arbitrary: first dst d_first)
  case 0
  then show ?case by (simp add: std_copy_loop.simps)
next
  case (Suc k)
  then have "k = lst - Suc first" by simp
  from Suc.hyps(1) [OF this] show ?case
    by (subst (1 2) std_copy_loop.simps) (simp split: option.splits)
qed


lemma relocate_n_Inr:
  assumes "relocate_n E src first n dst d_first = Some (Inr (src', dst'))"
  shows "first + n \<le> length src" and "d_first + n \<le> length dst"
    and "dst' = take d_first dst @ map (\<lambda>s. Some (the s)) (take n (drop first src))
            @ drop (d_first + n) dst"
    and "length src' = length src" and "drop (first + n) src' = drop (first + n) src"
proof -
  have "first + n \<le> length src \<and> d_first + n \<le> length dst \<and>
        dst' = take d_first dst @ map (\<lambda>s. Some (the s)) (take n (drop first src))
            @ drop (d_first + n) dst \<and>
        length src' = length src \<and> drop (first + n) src' = drop (first + n) src"
  proof (cases "is_nothrow_move_constructible E \<or> \<not> is_copy_constructible E")
    case True
    with assms have r: "first + n \<le> length src" "d_first + n \<le> length dst"
      and "uninitialized_move_n_loop E src first n dst d_first = Inr (src', dst')"
      by (simp_all add: relocate_n_def uninitialized_move_n_def split: if_splits)
    with uninitialized_move_n_Inr [OF this(3) r] show ?thesis by simp
  next
    case False
    with assms have r: "first + n \<le> length src" "d_first + n \<le> length dst"
      and "uninitialized_copy_n_loop E src first n dst d_first = Inr dst'" and "src' = src"
      by (auto simp: relocate_n_def uninitialized_copy_n_def split: if_splits sum.splits)
    with uninitialized_copy_n_Inr [OF this(3) r] show ?thesis by simp
  qed
  then show "first + n \<le> length src" and "d_first + n \<le> length dst"
    and "dst' = take d_first dst @ map (\<lambda>s. Some (the s)) (take n (drop first src))
            @ drop (d_first + n) dst"
    and "length src' = length src" and "drop (first + n) src' = drop (first + n) src"
    by simp_all
qed

lemma relocate_n_0:
  "first \<le> length src \<Longrightarrow> d_first \<le> length dst \<Longrightarrow>
   relocate_n E src first 0 dst d_first = Some (Inr (src, dst))"
  by (simp add: relocate_n_def uninitialized_move_n_def uninitialized_copy_n_def)

lemma relocate_n_total:
  assumes "\<And>x. copy_ctor_throws E x = None" and "\<And>x. move_ctor_throws E x = None"
    and "first + n \<le> length src" and "d_first + n \<le> length dst"
  shows "\<exists>s b. relocate_n E src first n dst d_first = Some (Inr (s, b))"
proof (cases "is_nothrow_move_constructible E \<or> \<not> is_copy_constructible E")
  case True
  then show ?thesis
    using uninitialized_move_n_total [of E src first n dst d_first, OF assms(2)] assms(3,4)
    by (simp add: relocate_n_def uninitialized_move_n_def)
next
  case False
  then show ?thesis
    using uninitialized_copy_n_total [of E src first n dst d_first, OF assms(1)] assms(3,4)
    by (auto simp: relocate_n_def uninitialized_copy_n_def)
qed

lemma size_t_id: "n < 2 ^ 64 \<Longrightarrow> size_t n = n"
  by (simp add: size_t_def)

lemma Allocate_cases:
  assumes "0 < sizeof_T E" and "n * sizeof_T E < 2 ^ 64"
  shows "Allocate E n =
     (if n \<noteq> 0 \<and> (PTRDIFF_MAX < n * sizeof_T E \<or> alloc_fails E (n * sizeof_T E))
      then Inl bad_alloc else Inr (replicate n None))"
  using assms by (simp add: Allocate_def size_t_id Let_def)

lemma Allocate_Inl: "Allocate E n = Inl a \<Longrightarrow> a = bad_alloc"
  by (simp add: Allocate_def Let_def split: if_splits)

lemma RawMemory_new_cases:
  assumes "0 < sizeof_T E" and "n * sizeof_T E < 2 ^ 64"
  shows "RawMemory_new E n =
     (if n \<noteq> 0 \<and> (PTRDIFF_MAX < n * sizeof_T E \<or> alloc_fails E (n * sizeof_T E))
      then Inl bad_alloc else Inr \<lparr>buffer_m = replicate n None, capacity_m = n\<rparr>)"
  by (simp add: RawMemory_new_def Allocate_cases [OF assms])

section \<open>Vectors that satisfy the invariant; Reserve, PopBack, a throwing append\<close>

lemma all_Some_conv: "list_all (\<lambda>s. s \<noteq> None) ys \<Longrightarrow> map (\<lambda>s. Some (the s)) ys = ys"
  by (induction ys) auto

lemma all_None_conv: "list_all (\<lambda>s. s = None) ys \<Longrightarrow> ys = replicate (length ys) None"
  by (induction ys) auto

lemma map_Some_the: "map (\<lambda>s. Some (the s)) (map Some ys) = map Some ys"
  by (simp add: comp_def)

lemma mk_vector_invariant: "invariant (mk_vector xs spare)"
  by (simp add: invariant_def mk_vector_def list_all_iff)

lemma elems_mk_vector: "elems (mk_vector xs spare) = xs"
  by (simp add: elems_def mk_vector_def comp_def)

lemma size_v_mk_vector: "size_v (mk_vector xs spare) = length xs"
  by (simp add: mk_vector_def)

lemma Capacity_mk_vector: "Capacity (mk_vector xs spare) = length xs + spare"
  by (simp add: mk_vector_def Capacity_def RawMemory_Capacity_def)

lemma slots_mk_vector_nth: "i < length xs \<Longrightarrow> slots (mk_vector xs spare) ! i = Some (xs ! i)"
  by (simp add: mk_vector_def nth_append)

lemma set_slots_mk_vector:
  "length b = length xs + spare \<Longrightarrow>
   set_slots (mk_vector xs spare) b =
     \<lparr>data_v = \<lparr>buffer_m = b, capacity_m = length xs + spare\<rparr>, size_v = length xs\<rparr>"
  by (simp add: set_slots_def mk_vector_def)

lemma size_v_set_slots: "size_v (set_slots v b) = size_v v"
  by (simp add: set_slots_def)

lemma Capacity_set_slots: "Capacity (set_slots v b) = Capacity v"
  by (simp add: Capacity_def set_slots_def RawMemory_Capacity_def)

lemma invariant_mk_vector:
  assumes "invariant v"
  shows "v = mk_vector (elems v) (capacity_m (data_v v) - size_v v)"
proof -
  let ?n = "size_v v"
  from assms have len: "length (slots v) = capacity_m (data_v v)" and le: "?n \<le> capacity_m (data_v v)"
    and live: "list_all (\<lambda>s. s \<noteq> None) (take ?n (slots v))"
    and raw: "list_all (\<lambda>s. s = None) (drop ?n (slots v))"
    by (simp_all add: invariant_def)
  have "map Some (elems v) = take ?n (slots v)"
    using all_Some_conv [OF live] by (simp add: elems_def comp_def)
  moreover have "drop ?n (slots v) = replicate (capacity_m (data_v v) - ?n) None"
    using all_None_conv [OF raw] len by simp
  ultimately have "slots v = map Some (elems v) @ replicate (capacity_m (data_v v) - ?n) None"
    by (metis append_take_drop_id)
  moreover have "length (elems v) = ?n"
    using len le by (simp add: elems_def)
  ultimately show ?thesis
    using le by (simp add: mk_vector_def)
qed

lemma Swap_fst: "fst (Swap v c) = c"
  by (cases v; cases c) (simp add: Swap_def RawMemory_Swap_def)


lemma slots_set_slots: "slots (set_slots v b) = b"
  by (simp add: set_slots_def)

lemma set_slots_set_slots: "set_slots (set_slots v b) b' = set_slots v b'"
  by (simp add: set_slots_def)

lemma slots_mk_vector: "slots (mk_vector xs spare) = map Some xs @ replicate spare None"
  by (simp add: mk_vector_def)

lemma RawMemory_Capacity_mk_vector:
  "RawMemory_Capacity (data_v (mk_vector xs spare)) = length xs + spare"
  by (simp add: mk_vector_def RawMemory_Capacity_def)

text \<open>
  C6. \<open>Reserve(k)\<close> with \<open>k \<le> capacity()\<close> returns with the vector as it was (size,
  capacity and every slot), whatever the allocator would answer: no storage is requested.
\<close>

theorem Reserve_within_capacity:
  "k \<le> Capacity v \<Longrightarrow> Reserve E v k = Returns v ()"
  by (simp add: Reserve_def Capacity_def)

theorem Reserve_within_capacity_witness:
  "(3::nat) \<le> Capacity (mk_vector [1, 2::nat] 2) \<and>
   Reserve (quiet 0) (mk_vector [1, 2::nat] 2) 3 = Returns (mk_vector [1, 2] 2) ()"
proof -
  have h: "(3::nat) \<le> Capacity (mk_vector [1, 2::nat] 2)"
    by (simp add: Capacity_def RawMemory_Capacity_def mk_vector_def)
  show ?thesis using h Reserve_within_capacity [OF h] by simp
qed


text \<open>
  C10. PopBack on a vector of size 0 does nothing: the size stays 0, no slot is destroyed,
  the vector is the one it was.
\<close>

theorem PopBack_empty: "Size v = 0 \<Longrightarrow> PopBack v = Returns v ()"
  by (simp add: PopBack_def Size_def)

theorem PopBack_empty_witness:
  "Size (mk_vector ([]::nat list) 2) = 0 \<and>
   PopBack (mk_vector ([]::nat list) 2) = Returns (mk_vector [] 2) ()"
proof -
  have h: "Size (mk_vector ([]::nat list) 2) = 0" by (simp add: Size_def mk_vector_def)
  show ?thesis using h PopBack_empty [OF h] by simp
qed

text \<open>
  C2. On a full vector (\<open>size = capacity\<close>), when the constructor of the appended element
  throws, PushBack and EmplaceBack throw and leave the vector exactly as it was: size,
  capacity and every slot. (The exception is the allocator's when the request for the new
  storage, which comes first, is refused.)
\<close>

theorem growing_append_ctor_throws:
  "Size v = Capacity v \<Longrightarrow> new_element E v args = Failed e \<Longrightarrow>
   PushBack E v args =
     Throws (if Allocate E (if Size v = 0 then 1 else size_t (Size v * 2)) = Inl bad_alloc
             then bad_alloc else e) v \<and>
   EmplaceBack E v args =
     Throws (if Allocate E (if Size v = 0 then 1 else size_t (Size v * 2)) = Inl bad_alloc
             then bad_alloc else e) v"
proof -
  assume h: "Size v = Capacity v" and f: "new_element E v args = Failed e"
  define n where "n = (if size_v v = 0 then 1 else size_t (size_v v * 2))"
  have full: "RawMemory_Capacity (data_v v) \<le> size_v v" "\<not> size_v v < RawMemory_Capacity (data_v v)"
    using h by (simp_all add: Size_def Capacity_def)
  consider "Allocate E n = Inl bad_alloc" | b where "Allocate E n = Inr b"
    using Allocate_Inl [of E n] by (cases "Allocate E n") auto
  then have
    "PushBack E v args = Throws (if Allocate E n = Inl bad_alloc then bad_alloc else e) v \<and>
     EmplaceBack E v args = Throws (if Allocate E n = Inl bad_alloc then bad_alloc else e) v"
  proof cases
    case 1
    then show ?thesis using full
      by (simp add: PushBack_def EmplaceBack_def Emplace_def RawMemory_new_def n_def)
  next
    case 2
    then show ?thesis using full f
      by (simp add: PushBack_def EmplaceBack_def Emplace_def RawMemory_new_def n_def)
  qed
  then show ?thesis by (simp add: n_def Size_def)
qed

theorem growing_append_ctor_throws_witness:
  "Size (mk_vector [1, 2::nat] 0) = Capacity (mk_vector [1, 2::nat] 0) \<and>
   new_element (quiet 0) (mk_vector [1, 2::nat] 0) (Construct (Inl (T_exception 7)))
     = Failed (T_exception 7) \<and>
   PushBack (quiet 0) (mk_vector [1, 2::nat] 0) (Construct (Inl (T_exception 7))) =
     Throws (T_exception 7) (mk_vector [1, 2] 0) \<and>
   EmplaceBack (quiet 0) (mk_vector [1, 2::nat] 0) (Construct (Inl (T_exception 7))) =
     Throws (T_exception 7) (mk_vector [1, 2] 0)"
proof -
  have h: "Size (mk_vector [1, 2::nat] 0) = Capacity (mk_vector [1, 2::nat] 0)"
    by (simp add: Size_def size_v_mk_vector Capacity_mk_vector)
  have f: "new_element (quiet 0) (mk_vector [1, 2::nat] 0) (Construct (Inl (T_exception 7)))
     = Failed (T_exception 7)"
    by simp
  have a: "Allocate (quiet (0::nat)) (if Size (mk_vector [1, 2::nat] 0) = 0 then 1
             else size_t (Size (mk_vector [1, 2::nat] 0) * 2))
           = Inr (replicate 4 None)"
    by code_simp
  note t = growing_append_ctor_throws [OF h f, unfolded a]
  show ?thesis using h f t by simp
qed

section \<open>Removal\<close>





section \<open>An exception in Emplace with spare capacity\<close>

lemma Emplace_try_block_size:
  "Emplace_try_block E v p args = Some (Inl (e, w)) \<Longrightarrow>
   size_v w = size_v v \<and> capacity_m (data_v w) = capacity_m (data_v v)"
  by (auto simp: Emplace_try_block_def set_slots_def Let_def
      split: if_splits made.splits option.splits sum.splits prod.splits)

text \<open>
  C1. In the branch of Emplace with spare capacity, at a position before the end, a step
  of the \<^verbatim>\<open>try\<close> block that throws does not end in a vector restored to its state before
  the call, nor in the exception reaching the caller: the handler passes \<^verbatim>\<open>end()\<close>, a
  pointer into the middle of the block, to \<^verbatim>\<open>operator delete\<close>, and the call is
  undefined, for every element type, vector, position and step that throws.
\<close>

theorem Emplace_middle_throw_undefined:
  "Size v < Capacity v \<Longrightarrow> p < Size v \<Longrightarrow>
   Emplace_try_block E v p args = Some (Inl (e, w)) \<Longrightarrow>
   Emplace E v p args = Undefined_behaviour"
proof -
  assume c: "Size v < Capacity v" and p: "p < Size v"
    and t: "Emplace_try_block E v p args = Some (Inl (e, w))"
  from Emplace_try_block_size [OF t] p have "size_v w \<noteq> 0" by (simp add: Size_def)
  then have "Emplace_catch e w = Undefined_behaviour"
    by (simp add: Emplace_catch_def operator_delete_def)
  with c p t show ?thesis
    by (simp add: Emplace_def Size_def Capacity_def)
qed

theorem Emplace_middle_throw_undefined_witness:
  "Size (mk_vector [1, 2, 3::nat] 1) < Capacity (mk_vector [1, 2, 3::nat] 1) \<and>
   (1::nat) < Size (mk_vector [1, 2, 3::nat] 1) \<and>
   Emplace_try_block (move_assign_throws_on 9) (mk_vector [1, 2, 3] 1) 1 (Construct (Inr 9)) =
     Some (Inl (T_exception 2,
          \<lparr>data_v = \<lparr>buffer_m = [Some 1, Some 2, Some 2, Some 3], capacity_m = 4\<rparr>,
           size_v = 3\<rparr>)) \<and>
   slots (mk_vector [1, 2, 3::nat] 1) = [Some 1, Some 2, Some 3, None] \<and>
   Emplace (move_assign_throws_on 9) (mk_vector [1, 2, 3] 1) 1 (Construct (Inr 9)) =
     Undefined_behaviour"
proof -
  have c: "Size (mk_vector [1, 2, 3::nat] 1) < Capacity (mk_vector [1, 2, 3::nat] 1)"
    by (simp add: Size_def size_v_mk_vector Capacity_mk_vector)
  have p: "(1::nat) < Size (mk_vector [1, 2, 3::nat] 1)"
    by (simp add: Size_def size_v_mk_vector)
  have t: "Emplace_try_block (move_assign_throws_on 9) (mk_vector [1, 2, 3] 1) 1
             (Construct (Inr 9)) =
     Some (Inl (T_exception 2,
          \<lparr>data_v = \<lparr>buffer_m = [Some 1, Some 2, Some 2, Some 3], capacity_m = 4\<rparr>,
           size_v = 3\<rparr>))"
    by code_simp
  have s: "slots (mk_vector [1, 2, 3::nat] 1) = [Some 1, Some 2, Some 3, None]"
    by code_simp
  show ?thesis using c p t s Emplace_middle_throw_undefined [OF c p t] by blast
qed

text \<open>
  C9. The invariant does not survive an exception in the branch of Emplace with spare
  capacity. \<open>Emplace(begin(), 9)\<close> on the vector \<open>[1, 2]\<close> of capacity 3, for a \<open>T\<close>
  whose move assignment throws when 9 is assigned: the handler is entered with a live
  object in slot 2 of a vector of size 2, and what it does with \<^verbatim>\<open>end()\<close> is undefined.
  On an empty vector of capacity 1, EmplaceBack with a constructor that throws does return
  by exception: the handler has passed \<^verbatim>\<open>end()\<close>, here the start of the block, to
  \<^verbatim>\<open>operator delete\<close>, and the vector is left with capacity 1 and no storage.
\<close>

theorem Emplace_throw_breaks_invariant:
  "invariant (mk_vector [1, 2::nat] 1) \<and>
   Emplace_try_block (move_assign_throws_on 9) (mk_vector [1, 2] 1) 0 (Construct (Inr 9)) =
     Some (Inl (T_exception 2,
          \<lparr>data_v = \<lparr>buffer_m = [Some 1, Some 1, Some 2], capacity_m = 3\<rparr>, size_v = 2\<rparr>)) \<and>
   \<not> invariant \<lparr>data_v = \<lparr>buffer_m = [Some 1, Some 1, Some (2::nat)], capacity_m = 3\<rparr>, size_v = 2\<rparr> \<and>
   Emplace_catch (T_exception 2)
     \<lparr>data_v = \<lparr>buffer_m = [Some 1, Some 1, Some (2::nat)], capacity_m = 3\<rparr>, size_v = 2\<rparr>
     = Undefined_behaviour \<and>
   Emplace (move_assign_throws_on 9) (mk_vector [1, 2] 1) 0 (Construct (Inr 9)) =
     Undefined_behaviour \<and>
   invariant (mk_vector ([]::nat list) 1) \<and>
   EmplaceBack (quiet 0) (mk_vector ([]::nat list) 1) (Construct (Inl (T_exception 7))) =
     Throws (T_exception 7) \<lparr>data_v = \<lparr>buffer_m = [], capacity_m = 1\<rparr>, size_v = 0\<rparr> \<and>
   \<not> invariant \<lparr>data_v = \<lparr>buffer_m = ([]::nat option list), capacity_m = 1\<rparr>, size_v = 0\<rparr>"
  by code_simp

section \<open>Construction with a size\<close>

lemma Allocate_enough:
  assumes "Allocate E n = Inr b" and "n \<le> length b"
  shows "b = replicate n None"
    and "n \<noteq> 0 \<Longrightarrow> 0 < sizeof_T E \<and> n * sizeof_T E \<le> PTRDIFF_MAX \<and>
           \<not> alloc_fails E (n * sizeof_T E)"
proof -
  have "b = replicate n None \<and>
        (n \<noteq> 0 \<longrightarrow> 0 < sizeof_T E \<and> n * sizeof_T E \<le> PTRDIFF_MAX \<and>
           \<not> alloc_fails E (n * sizeof_T E))"
  proof (cases "n = 0")
    case True
    with assms show ?thesis by (simp add: Allocate_def)
  next
    case False
    define bytes where "bytes = size_t (n * sizeof_T E)"
    from assms(1) False have ok: "\<not> PTRDIFF_MAX < bytes" "\<not> alloc_fails E bytes"
      and b: "b = replicate (bytes div sizeof_T E) None"
      by (auto simp: Allocate_def Let_def bytes_def split: if_splits)
    from assms(2) b have le: "n \<le> bytes div sizeof_T E" by simp
    with False have sz: "0 < sizeof_T E" by (cases "sizeof_T E = 0") simp_all
    have "n * sizeof_T E \<le> (bytes div sizeof_T E) * sizeof_T E"
      using le by (rule mult_le_mono1)
    also have "\<dots> \<le> bytes" by simp
    finally have ge: "n * sizeof_T E \<le> bytes" .
    have "bytes \<le> n * sizeof_T E" by (simp add: bytes_def size_t_def)
    with ge have eq: "bytes = n * sizeof_T E" by simp
    with sz have "bytes div sizeof_T E = n" by simp
    with b ok eq sz show ?thesis by simp
  qed
  then show "b = replicate n None"
    and "n \<noteq> 0 \<Longrightarrow> 0 < sizeof_T E \<and> n * sizeof_T E \<le> PTRDIFF_MAX \<and>
           \<not> alloc_fails E (n * sizeof_T E)"
    by simp_all
qed

lemma Allocate_granted:
  assumes "0 < sizeof_T E" and "n * sizeof_T E \<le> PTRDIFF_MAX"
    and "\<not> alloc_fails E (n * sizeof_T E)"
  shows "Allocate E n = Inr (replicate n None)"
proof -
  from assms(2) have "n * sizeof_T E < 2 ^ 64" by (simp add: PTRDIFF_MAX_def)
  from Allocate_cases [OF assms(1) this] assms(2,3) show ?thesis by simp
qed

text \<open>
  C8. \<open>Vector(n)\<close>: whenever the constructor completes, the vector has size \<open>n\<close> and
  capacity \<open>n\<close>, a block of \<open>n\<close> slots, each holding a value-initialised object, and it
  satisfies the invariant. Where \<^verbatim>\<open>n * sizeof(T)\<close> fits a \<^verbatim>\<open>size_t\<close>, what the
  constructor does is determined: it throws \<^verbatim>\<open>bad_alloc\<close> when the request is refused,
  it throws what \<open>T()\<close> throws, and otherwise it completes with \<open>n\<close> value-initialised
  elements; in particular it completes for every \<open>n\<close> whose block the allocator grants
  and a \<open>T()\<close> that does not throw.
\<close>

theorem Vector_new_value_initialized:
  "(Vector_new E n = Constructed v \<longrightarrow>
      Size v = n \<and> Capacity v = n \<and> length (slots v) = n \<and> invariant v \<and>
      (\<forall>i<n. \<exists>d. value_init E = Inr d \<and> slots v ! i = Some d)) \<and>
   (0 < sizeof_T E \<longrightarrow> n * sizeof_T E < 2 ^ 64 \<longrightarrow>
      Vector_new E n =
        (if n \<noteq> 0 \<and> (PTRDIFF_MAX < n * sizeof_T E \<or> alloc_fails E (n * sizeof_T E))
         then Construction_throws bad_alloc
         else case value_init E of
                Inl e \<Rightarrow> if n = 0 then Constructed (mk_vector [] 0) else Construction_throws e
              | Inr d \<Rightarrow> Constructed (mk_vector (replicate n d) 0)))"
proof (intro conjI impI)
  assume sz: "0 < sizeof_T E" and fit: "n * sizeof_T E < 2 ^ 64"
  show "Vector_new E n =
        (if n \<noteq> 0 \<and> (PTRDIFF_MAX < n * sizeof_T E \<or> alloc_fails E (n * sizeof_T E))
         then Construction_throws bad_alloc
         else case value_init E of
                Inl e \<Rightarrow> if n = 0 then Constructed (mk_vector [] 0) else Construction_throws e
              | Inr d \<Rightarrow> Constructed (mk_vector (replicate n d) 0))"
  proof (cases "value_init E")
    case (Inl e)
    then show ?thesis
      by (simp add: Vector_new_def RawMemory_new_cases [OF sz fit]
          uninitialized_value_construct_n_def uninitialized_value_construct_n_Inl mk_vector_def)
  next
    case (Inr d)
    then show ?thesis
      by (simp add: Vector_new_def RawMemory_new_cases [OF sz fit]
          uninitialized_value_construct_n_def uninitialized_value_construct_n_Inr mk_vector_def)
  qed
next
  assume c: "Vector_new E n = Constructed v"
  then obtain m b where m: "Allocate E n = Inr m" and le: "n \<le> length m"
    and u: "uninitialized_value_construct_n_loop E m 0 n = Inr b"
    and v: "v = \<lparr>data_v = \<lparr>buffer_m = b, capacity_m = n\<rparr>, size_v = n\<rparr>"
    by (auto simp: Vector_new_def RawMemory_new_def uninitialized_value_construct_n_def
        split: sum.splits option.splits if_splits)
  from Allocate_enough(1) [OF m le] have m': "m = replicate n None" .
  have "v = mk_vector (replicate n (SOME d. value_init E = Inr d)) 0 \<and>
        (\<forall>i<n. \<exists>d. value_init E = Inr d \<and> slots v ! i = Some d)"
  proof (cases "value_init E")
    case (Inl e)
    with u have "n = 0" "b = m"
      by (simp_all add: uninitialized_value_construct_n_Inl split: if_splits)
    with v m' show ?thesis by (simp add: mk_vector_def)
  next
    case (Inr d)
    with u m' have "b = replicate n (Some d)"
      by (simp add: uninitialized_value_construct_n_Inr)
    with v Inr show ?thesis by (simp add: mk_vector_def)
  qed
  then have r: "v = mk_vector (replicate n (SOME d. value_init E = Inr d)) 0"
    and s: "\<forall>i<n. \<exists>d. value_init E = Inr d \<and> slots v ! i = Some d" by blast+
  show "invariant v" by (subst r) (rule mk_vector_invariant)
  show "Size v = n" "Capacity v = n" by (simp_all add: v Size_def Capacity_def RawMemory_Capacity_def)
  show "length (slots v) = n" by (subst r) (simp add: mk_vector_def)
  show "\<forall>i<n. \<exists>d. value_init E = Inr d \<and> slots v ! i = Some d" by (rule s)
qed

theorem Vector_new_value_initialized_witness:
  "Vector_new (quiet (0::nat)) 3 = Constructed (mk_vector [0, 0, 0] 0) \<and>
   0 < sizeof_T (quiet (0::nat)) \<and> 3 * sizeof_T (quiet (0::nat)) < 2 ^ 64 \<and>
   Size (mk_vector [0, 0, 0::nat] 0) = 3 \<and> Capacity (mk_vector [0, 0, 0::nat] 0) = 3 \<and>
   slots (mk_vector [0, 0, 0::nat] 0) = [Some 0, Some 0, Some 0] \<and>
   invariant (mk_vector [0, 0, 0::nat] 0)"
proof -
  have h: "Vector_new (quiet (0::nat)) 3 = Constructed (mk_vector [0, 0, 0] 0)"
    by code_simp
  have s: "0 < sizeof_T (quiet (0::nat))" "3 * sizeof_T (quiet (0::nat)) < 2 ^ 64"
    by (simp_all add: quiet_def)
  have b: "slots (mk_vector [0, 0, 0::nat] 0) = [Some 0, Some 0, Some 0]"
    by (simp add: mk_vector_def)
  note t = Vector_new_value_initialized [of "quiet 0" 3 "mk_vector [0, 0, 0] 0"]
  show ?thesis using h s b t by blast
qed

theorem Vector_new_value_initialized_counterexample:
  "Allocate (quiet (0::nat)) (2 ^ 62) = Inr [] \<and>
   Vector_new (quiet (0::nat)) (2 ^ 62) = Construction_undefined"
  by code_simp

section \<open>Copy assignment\<close>

lemma std_copy_total:
  "(\<And>i. first \<le> i \<Longrightarrow> i < lst \<Longrightarrow>
      copy_assign_throws E (the (dst ! (d_first + (i - first)))) (the (src ! i)) = None) \<Longrightarrow>
   \<exists>b. std_copy_loop E src first lst dst d_first = Inr b"
proof (induction E src first lst dst d_first rule: std_copy_loop.induct)
  case (1 E src first lst dst d_first)
  show ?case
  proof (cases "first < lst")
    case True
    have head: "copy_assign_throws E (the (dst ! d_first)) (the (src ! first)) = None"
      using "1.prems" [of first] True by simp
    have "\<exists>b. std_copy_loop E src (Suc first) lst (dst[d_first := src ! first]) (Suc d_first)
             = Inr b"
    proof (rule "1.IH" [OF True head])
      fix i assume i: "Suc first \<le> i" "i < lst"
      then have "Suc d_first + (i - Suc first) = d_first + (i - first)" by simp
      moreover have "d_first + (i - first) \<noteq> d_first" using i by simp
      ultimately show "copy_assign_throws E
          (the (dst[d_first := src ! first] ! (Suc d_first + (i - Suc first))))
          (the (src ! i)) = None"
        using "1.prems" [of i] i by simp
    qed
    with True head show ?thesis by (subst std_copy_loop.simps) simp
  next
    case False
    then show ?thesis by (subst std_copy_loop.simps) simp
  qed
qed

lemma uninitialized_copy_n_total_on:
  "(\<And>i. first \<le> i \<Longrightarrow> i < first + n \<Longrightarrow> copy_ctor_throws E (the (src ! i)) = None) \<Longrightarrow>
   \<exists>b. uninitialized_copy_n_loop E src first n dst d_first = Inr b"
proof (induction n arbitrary: first dst d_first)
  case 0
  then show ?case by simp
next
  case (Suc n)
  have "copy_ctor_throws E (the (src ! first)) = None" using Suc.prems [of first] by simp
  moreover have "\<exists>b. uninitialized_copy_n_loop E src (Suc first) n
                        (dst[d_first := Some (the (src ! first))]) (Suc d_first) = Inr b"
    by (rule Suc.IH) (use Suc.prems in simp)
  ultimately show ?case by (simp add: copy_construct_def)
qed

lemma CopyVector_unfold:
  assumes fits: "length ys \<le> length xs + s"
  shows "CopyVector E (mk_vector xs s) (mk_vector ys t) =
     (case std_copy_loop E (map Some ys @ replicate t None) 0 (min (length xs) (length ys))
             (map Some xs @ replicate s None) 0 of
        Inl (e, b) \<Rightarrow> Throws e (set_slots (mk_vector xs s) b)
      | Inr b \<Rightarrow>
          if length xs \<le> length ys then
            (case uninitialized_copy_n_loop E (map Some ys @ replicate t None) (length xs)
                    (length ys - length xs) b (length xs) of
               Inl e \<Rightarrow> Throws e (set_slots (mk_vector xs s) b)
             | Inr b' \<Rightarrow> Returns ((set_slots (mk_vector xs s) b')\<lparr>size_v := length ys\<rparr>) ())
          else
            Returns ((set_slots (mk_vector xs s)
                        (destroy_n_loop b (length ys) (length xs - length ys)))
                       \<lparr>size_v := length ys\<rparr>) ())"
proof -
  let ?n = "length xs" and ?m = "length ys"
  let ?v = "mk_vector xs s" and ?o = "mk_vector ys t"
  let ?sv = "map Some xs @ replicate s None" and ?so = "map Some ys @ replicate t None"
  have sz: "size_v ?v = ?n" "slots ?v = ?sv" "size_v ?o = ?m" "slots ?o = ?so"
    by (simp_all add: mk_vector_def)
  have rng: "std_copy E ?so 0 (min ?n ?m) ?sv 0 = Some (std_copy_loop E ?so 0 (min ?n ?m) ?sv 0)"
    by (simp add: std_copy_def min_def)
  show ?thesis
  proof (cases "std_copy_loop E ?so 0 (min ?n ?m) ?sv 0")
    case (Inl a)
    then show ?thesis unfolding CopyVector_def sz rng by (simp split: prod.splits)
  next
    case (Inr b)
    have "b = take 0 ?sv @ take (min ?n ?m - 0) (drop 0 ?so) @ drop (0 + (min ?n ?m - 0)) ?sv"
      by (rule std_copy_Inr [OF Inr]) simp_all
    then have len: "length b = ?n + s" by simp
    have u: "uninitialized_copy_n E ?so ?n (?m - ?n) b ?n
               = Some (uninitialized_copy_n_loop E ?so ?n (?m - ?n) b ?n)" if "?n \<le> ?m"
      using that fits len by (simp add: uninitialized_copy_n_def)
    have d: "destroy_n b ?m (?n - ?m) = Some (destroy_n_loop b ?m (?n - ?m))" if "\<not> ?n \<le> ?m"
      using that len by (simp add: destroy_n_def)
    show ?thesis
    proof (cases "?n \<le> ?m")
      case True
      show ?thesis unfolding CopyVector_def sz rng using Inr True u [OF True] by simp
    next
      case False
      show ?thesis unfolding CopyVector_def sz rng using Inr False d [OF False] by simp
    qed
  qed
qed

lemma CopyVector_mk_vector:
  assumes "CopyVector E (mk_vector xs s) (mk_vector ys t) = Returns v' u"
    and fits: "length ys \<le> length xs + s"
  shows "v' = mk_vector ys (length xs + s - length ys)"
proof -
  let ?n = "length xs" and ?m = "length ys"
  let ?v = "mk_vector xs s" and ?o = "mk_vector ys t"
  let ?sv = "map Some xs @ replicate s None" and ?so = "map Some ys @ replicate t None"
  note un = CopyVector_unfold [OF fits, of E t]
  from assms(1) obtain b where
    cp: "std_copy_loop E ?so 0 (min ?n ?m) ?sv 0 = Inr b"
    unfolding un
    by (cases "std_copy_loop E ?so 0 (min ?n ?m) ?sv 0") auto
  have b: "b = map Some (take (min ?n ?m) ys) @ drop (min ?n ?m) ?sv"
    using std_copy_Inr [OF cp] by (simp add: take_map)
  show ?thesis
  proof (cases "?n \<le> ?m")
    case True
    with assms(1) cp obtain b' where
      uc: "uninitialized_copy_n_loop E ?so ?n (?m - ?n) b ?n = Inr b'" and
      v': "v' = (set_slots ?v b')\<lparr>size_v := ?m\<rparr>"
      unfolding un
      by (cases "uninitialized_copy_n_loop E ?so ?n (?m - ?n) b ?n") auto
    from True have b1: "b = map Some (take ?n ys) @ replicate s None"
      by (simp add: b min_def)
    have "b' = take ?n b @ map (\<lambda>s. Some (the s)) (take (?m - ?n) (drop ?n ?so))
                 @ drop (?n + (?m - ?n)) b"
      using uninitialized_copy_n_Inr [OF uc] True fits by (simp add: b1)
    moreover have "take ?n b = map Some (take ?n ys)" using True by (simp add: b1)
    moreover have "take (?m - ?n) (drop ?n ?so) = map Some (drop ?n ys)"
      using True by (simp add: drop_map)
    moreover have "drop (?n + (?m - ?n)) b = replicate (?n + s - ?m) None"
      using True fits by (simp add: b1)
    ultimately have "b' = (map Some (take ?n ys) @ map Some (drop ?n ys))
                            @ replicate (?n + s - ?m) None"
      by (simp add: comp_def)
    moreover have "map Some (take ?n ys) @ map Some (drop ?n ys) = map Some ys"
      by (simp add: map_append [symmetric] del: map_append)
    ultimately have "b' = map Some ys @ replicate (?n + s - ?m) None"
      by (simp only:)
    then show ?thesis using fits by (simp add: v' set_slots_def mk_vector_def)
  next
    case False
    with assms(1) cp have
      v': "v' = (set_slots ?v (destroy_n_loop b ?m (?n - ?m)))\<lparr>size_v := ?m\<rparr>"
      unfolding un by simp
    from False have b1: "b = map Some ys @ map Some (drop ?m xs) @ replicate s None"
      by (simp add: b min_def drop_map)
    have "destroy_n_loop b ?m (?n - ?m) = take ?m b @ replicate (?n - ?m) None @ drop (?m + (?n - ?m)) b"
      using False by (intro destroy_n_conv) (simp add: b1)
    moreover have "take ?m b = map Some ys" by (simp add: b1)
    moreover have "drop (?m + (?n - ?m)) b = replicate s None" using False by (simp add: b1)
    ultimately have "destroy_n_loop b ?m (?n - ?m) = map Some ys @ replicate (?n + s - ?m) None"
      using False by (simp add: replicate_add [symmetric])
    then show ?thesis using fits by (simp add: v' set_slots_def mk_vector_def)
  qed
qed

lemma CopyVector_returns:
  assumes fits: "length ys \<le> length xs + s"
    and assign: "\<And>i. i < min (length xs) (length ys) \<Longrightarrow>
                   copy_assign_throws E (xs ! i) (ys ! i) = None"
    and ctor: "\<And>i. length xs \<le> i \<Longrightarrow> i < length ys \<Longrightarrow> copy_ctor_throws E (ys ! i) = None"
  shows "CopyVector E (mk_vector xs s) (mk_vector ys t)
           = Returns (mk_vector ys (length xs + s - length ys)) ()"
proof -
  let ?n = "length xs" and ?m = "length ys"
  let ?sv = "map Some xs @ replicate s None" and ?so = "map Some ys @ replicate t None"
  note un = CopyVector_unfold [OF fits, of E t]
  have "\<exists>b. std_copy_loop E ?so 0 (min ?n ?m) ?sv 0 = Inr b"
  proof (rule std_copy_total)
    fix i :: nat assume "0 \<le> i" "i < min ?n ?m"
    then show "copy_assign_throws E (the (?sv ! (0 + (i - 0)))) (the (?so ! i)) = None"
      using assign [of i] by (simp add: nth_append)
  qed
  then obtain b where cp: "std_copy_loop E ?so 0 (min ?n ?m) ?sv 0 = Inr b" ..
  have "\<exists>b'. uninitialized_copy_n_loop E ?so ?n (?m - ?n) b ?n = Inr b'" if "?n \<le> ?m"
  proof (rule uninitialized_copy_n_total_on)
    fix i assume "?n \<le> i" "i < ?n + (?m - ?n)"
    with that show "copy_ctor_throws E (the (?so ! i)) = None"
      using ctor [of i] by (simp add: nth_append)
  qed
  with cp have "\<exists>w. CopyVector E (mk_vector xs s) (mk_vector ys t) = Returns w ()"
    unfolding un by (cases "?n \<le> ?m") auto
  then obtain w where w: "CopyVector E (mk_vector xs s) (mk_vector ys t) = Returns w ()" ..
  from CopyVector_mk_vector [OF w fits] w show ?thesis by simp
qed

lemma CopyVector_throws:
  "CopyVector E v other = Throws e v' \<Longrightarrow> Capacity v' = Capacity v \<and> Size v' = Size v"
  by (auto simp: CopyVector_def Capacity_def Size_def set_slots_def RawMemory_Capacity_def
      split: sum.splits prod.splits if_splits option.splits)

lemma CopyVector_defined:
  "length ys \<le> length xs + s \<Longrightarrow>
   CopyVector E (mk_vector xs s) (mk_vector ys t) \<noteq> Undefined_behaviour"
  by (simp add: CopyVector_unfold split: sum.splits prod.splits)

lemma CopyVector_alloc:
  "CopyVector (E\<lparr>alloc_fails := f\<rparr>) v other = CopyVector E v other"
  by (simp add: CopyVector_def std_copy_def uninitialized_copy_n_def std_copy_alloc
      uninitialized_copy_n_alloc split: sum.splits prod.splits)

lemma Vector_copy_mk_vector:
  assumes "Vector_copy E (mk_vector ys t) = Constructed c"
  shows "c = mk_vector ys 0"
proof -
  let ?m = "length ys"
  let ?so = "map Some ys @ replicate t None"
  have sz: "size_v (mk_vector ys t) = ?m" "slots (mk_vector ys t) = ?so"
    by (simp_all add: mk_vector_def)
  from assms obtain m b where m: "Allocate E ?m = Inr m" and le: "?m \<le> length m"
    and uc: "uninitialized_copy_n_loop E ?so 0 ?m m 0 = Inr b"
    and c: "c = \<lparr>data_v = \<lparr>buffer_m = b, capacity_m = ?m\<rparr>, size_v = ?m\<rparr>"
    unfolding Vector_copy_def sz RawMemory_new_def uninitialized_copy_n_def
    by (auto split: if_splits sum.splits)
  from Allocate_enough(1) [OF m le] have m': "m = replicate ?m None" .
  have "b = map Some ys"
    using uninitialized_copy_n_Inr [OF uc] by (simp add: m' map_Some_the)
  then show ?thesis by (simp add: c mk_vector_def)
qed

lemma Vector_copy_cases:
  assumes "0 < sizeof_T E" and "(length ys + t) * sizeof_T E \<le> PTRDIFF_MAX"
  shows "Vector_copy E (mk_vector ys t) =
     (if ys \<noteq> [] \<and> alloc_fails E (length ys * sizeof_T E) then Construction_throws bad_alloc
      else case uninitialized_copy_n_loop E (map Some ys @ replicate t None) 0 (length ys)
                  (replicate (length ys) None) 0 of
             Inl e \<Rightarrow> Construction_throws e
           | Inr b \<Rightarrow> Constructed (mk_vector ys 0))"
proof -
  let ?m = "length ys"
  let ?so = "map Some ys @ replicate t None"
  have sz: "size_v (mk_vector ys t) = ?m" "slots (mk_vector ys t) = ?so"
    by (simp_all add: mk_vector_def)
  have "?m * sizeof_T E \<le> (?m + t) * sizeof_T E" by simp
  then have le: "?m * sizeof_T E \<le> PTRDIFF_MAX" using assms(2) by linarith
  then have fit: "?m * sizeof_T E < 2 ^ 64" by (simp add: PTRDIFF_MAX_def)
  have new: "RawMemory_new E ?m =
     (if ys \<noteq> [] \<and> alloc_fails E (?m * sizeof_T E) then Inl bad_alloc
      else Inr \<lparr>buffer_m = replicate ?m None, capacity_m = ?m\<rparr>)"
    using le by (simp add: RawMemory_new_cases [OF assms(1) fit])
  have raw: "Vector_copy E (mk_vector ys t) =
     (if ys \<noteq> [] \<and> alloc_fails E (?m * sizeof_T E) then Construction_throws bad_alloc
      else case uninitialized_copy_n_loop E ?so 0 ?m (replicate ?m None) 0 of
             Inl e \<Rightarrow> Construction_throws e
           | Inr b \<Rightarrow>
               Constructed \<lparr>data_v = \<lparr>buffer_m = b, capacity_m = ?m\<rparr>, size_v = ?m\<rparr>)"
    unfolding Vector_copy_def sz new by (simp add: uninitialized_copy_n_def split: sum.splits)
  show ?thesis
  proof (cases "Vector_copy E (mk_vector ys t)")
    case (Constructed c)
    with Vector_copy_mk_vector [OF Constructed] raw show ?thesis
      by (auto split: if_splits sum.splits)
  next
    case (Construction_throws e)
    with raw show ?thesis by (auto split: if_splits sum.splits)
  next
    case Construction_undefined
    with raw show ?thesis by (auto split: if_splits sum.splits)
  qed
qed

lemma in_memory_mk_vector:
  "in_memory E (mk_vector ys t) \<longleftrightarrow>
     0 < sizeof_T E \<and> sizeof_T E \<le> PTRDIFF_MAX \<and> (length ys + t) * sizeof_T E \<le> PTRDIFF_MAX"
  by (simp add: in_memory_def mk_vector_def)

text \<open>
  C5. Copy assignment between two different vectors that satisfy the invariant. Whenever
  it returns, the target holds the elements of the source, in the source's order, with
  the source's size. When the source's size is at most the target's capacity, the
  storage is reused: the allocator is not asked (the outcome is the same for every
  allocator), the capacity stays on return and on a throw, and the call returns whenever
  no copy assignment of a source element to the target element at the same index (the
  common prefix) and no copy construction of a source element beyond the target's size
  (the remainder) throws. Otherwise a copy is made and swapped in: the target gets the
  source's size as capacity, an exception leaves the target as it was, and for a source
  in memory the call throws \<^verbatim>\<open>bad_alloc\<close> when the allocator refuses the block and
  returns when it grants it and no copy construction of a source element throws.
\<close>

theorem copy_assignment:
  assumes "invariant v" and "invariant other"
  shows "(operator_assign_copy E False v other = Returns v' u \<longrightarrow>
            elems v' = elems other \<and> Size v' = Size other \<and> invariant v' \<and>
            Capacity v' = (if Size other \<le> Capacity v then Capacity v else Size other)) \<and>
         (Size other \<le> Capacity v \<longrightarrow>
            operator_assign_copy E False v other \<noteq> Undefined_behaviour \<and>
            operator_assign_copy (E\<lparr>alloc_fails := f\<rparr>) False v other
              = operator_assign_copy E False v other \<and>
            (operator_assign_copy E False v other = Throws e v' \<longrightarrow>
               Capacity v' = Capacity v \<and> Size v' = Size v) \<and>
            ((\<forall>i<min (Size v) (Size other).
                copy_assign_throws E (elems v ! i) (elems other ! i) = None) \<and>
             (\<forall>i. Size v \<le> i \<and> i < Size other \<longrightarrow>
                copy_ctor_throws E (elems other ! i) = None) \<longrightarrow>
             operator_assign_copy E False v other
               = Returns (mk_vector (elems other) (Capacity v - Size other)) ())) \<and>
         (\<not> Size other \<le> Capacity v \<longrightarrow>
            (operator_assign_copy E False v other = Throws e v' \<longrightarrow> v' = v) \<and>
            (in_memory E other \<longrightarrow>
               operator_assign_copy E False v other \<noteq> Undefined_behaviour \<and>
               (alloc_fails E (Size other * sizeof_T E) \<longrightarrow>
                  operator_assign_copy E False v other = Throws bad_alloc v) \<and>
               (\<not> alloc_fails E (Size other * sizeof_T E) \<and>
                (\<forall>i<Size other. copy_ctor_throws E (elems other ! i) = None) \<longrightarrow>
                  operator_assign_copy E False v other
                    = Returns (mk_vector (elems other) 0) ())))"
proof -
  obtain xs s where v: "v = mk_vector xs s"
    using invariant_mk_vector [OF assms(1)] by blast
  obtain ys t where other: "other = mk_vector ys t"
    using invariant_mk_vector [OF assms(2)] by blast
  have sz: "Size v = length xs" "Size other = length ys" "Capacity v = length xs + s"
    "elems v = xs" "elems other = ys" "size_v v = length xs" "size_v other = length ys"
    by (simp_all add: v other Size_def size_v_mk_vector Capacity_mk_vector elems_mk_vector)
  have fits_iff: "size_v other \<le> RawMemory_Capacity (data_v v) \<longleftrightarrow> length ys \<le> length xs + s"
    using sz by (simp add: Size_def Capacity_def)
  have 1: "elems v' = elems other \<and> Size v' = Size other \<and> invariant v' \<and>
           Capacity v' = (if Size other \<le> Capacity v then Capacity v else Size other)"
    if r: "operator_assign_copy E False v other = Returns v' u"
  proof (cases "length ys \<le> length xs + s")
    case True
    with r have "CopyVector E (mk_vector xs s) (mk_vector ys t) = Returns v' u"
      by (simp add: operator_assign_copy_def fits_iff) (simp only: v other)
    then have "v' = mk_vector ys (length xs + s - length ys)"
      using True by (rule CopyVector_mk_vector)
    with True show ?thesis
      by (simp add: sz elems_mk_vector Size_def size_v_mk_vector mk_vector_invariant
          Capacity_mk_vector)
  next
    case False
    with r obtain c where c: "Vector_copy E other = Constructed c" and "v' = fst (Swap v c)"
      by (auto simp: operator_assign_copy_def fits_iff split: constructed.splits)
    then have "v' = mk_vector ys 0"
      using Vector_copy_mk_vector [of E ys t c] by (simp add: Swap_fst other)
    with False show ?thesis
      by (simp add: sz elems_mk_vector Size_def size_v_mk_vector mk_vector_invariant
          Capacity_mk_vector)
  qed
  have 2: "operator_assign_copy E False v other \<noteq> Undefined_behaviour \<and>
            operator_assign_copy (E\<lparr>alloc_fails := f\<rparr>) False v other
              = operator_assign_copy E False v other \<and>
            (operator_assign_copy E False v other = Throws e v' \<longrightarrow>
               Capacity v' = Capacity v \<and> Size v' = Size v) \<and>
            ((\<forall>i<min (Size v) (Size other).
                copy_assign_throws E (elems v ! i) (elems other ! i) = None) \<and>
             (\<forall>i. Size v \<le> i \<and> i < Size other \<longrightarrow>
                copy_ctor_throws E (elems other ! i) = None) \<longrightarrow>
             operator_assign_copy E False v other
               = Returns (mk_vector (elems other) (Capacity v - Size other)) ())"
    if fits: "length ys \<le> length xs + s"
  proof -
    have eq: "operator_assign_copy E' False v other = CopyVector E' v other" for E' :: "('a, 'b) env_scheme"
      using fits by (simp add: operator_assign_copy_def fits_iff)
    have a: "operator_assign_copy E False v other \<noteq> Undefined_behaviour"
      unfolding eq unfolding v other using fits by (rule CopyVector_defined)
    have b: "operator_assign_copy (E\<lparr>alloc_fails := f\<rparr>) False v other
              = operator_assign_copy E False v other"
      by (simp add: eq CopyVector_alloc)
    have c: "Capacity v' = Capacity v \<and> Size v' = Size v"
      if "operator_assign_copy E False v other = Throws e v'"
      using that unfolding eq by (rule CopyVector_throws)
    have d: "operator_assign_copy E False v other
               = Returns (mk_vector (elems other) (Capacity v - Size other)) ()"
      if "\<forall>i<min (Size v) (Size other).
                copy_assign_throws E (elems v ! i) (elems other ! i) = None"
        and "\<forall>i. Size v \<le> i \<and> i < Size other \<longrightarrow>
                copy_ctor_throws E (elems other ! i) = None"
      unfolding eq sz unfolding v other
      using fits that unfolding sz by (intro CopyVector_returns) simp_all
    from a b c d show ?thesis by blast
  qed
  have 3: "(operator_assign_copy E False v other = Throws e v' \<longrightarrow> v' = v) \<and>
            (in_memory E other \<longrightarrow>
               operator_assign_copy E False v other \<noteq> Undefined_behaviour \<and>
               (alloc_fails E (Size other * sizeof_T E) \<longrightarrow>
                  operator_assign_copy E False v other = Throws bad_alloc v) \<and>
               (\<not> alloc_fails E (Size other * sizeof_T E) \<and>
                (\<forall>i<Size other. copy_ctor_throws E (elems other ! i) = None) \<longrightarrow>
                  operator_assign_copy E False v other
                    = Returns (mk_vector (elems other) 0) ()))"
    if big: "\<not> length ys \<le> length xs + s"
  proof -
    have eq: "operator_assign_copy E False v other =
        (case Vector_copy E other of
              Construction_throws e \<Rightarrow> Throws e v
            | Construction_undefined \<Rightarrow> Undefined_behaviour
            | Constructed other_copy \<Rightarrow> Returns (fst (Swap v other_copy)) ())"
      using big by (simp add: operator_assign_copy_def fits_iff)
    have a: "v' = v" if "operator_assign_copy E False v other = Throws e v'"
      using that unfolding eq by (simp split: constructed.splits)
    have ne: "ys \<noteq> []" using big by auto
    have b: "operator_assign_copy E False v other \<noteq> Undefined_behaviour \<and>
               (alloc_fails E (Size other * sizeof_T E) \<longrightarrow>
                  operator_assign_copy E False v other = Throws bad_alloc v) \<and>
               (\<not> alloc_fails E (Size other * sizeof_T E) \<and>
                (\<forall>i<Size other. copy_ctor_throws E (elems other ! i) = None) \<longrightarrow>
                  operator_assign_copy E False v other
                    = Returns (mk_vector (elems other) 0) ())"
      if mem: "in_memory E other"
    proof -
      from mem have m: "0 < sizeof_T E" "(length ys + t) * sizeof_T E \<le> PTRDIFF_MAX"
        by (simp_all add: other in_memory_mk_vector)
      note vc = Vector_copy_cases [OF m, folded other]
      have b1: "operator_assign_copy E False v other \<noteq> Undefined_behaviour"
        unfolding eq vc by (simp split: sum.splits)
      have b2: "operator_assign_copy E False v other = Throws bad_alloc v"
        if "alloc_fails E (Size other * sizeof_T E)"
        unfolding eq vc using that ne by (simp add: sz)
      have b3: "operator_assign_copy E False v other = Returns (mk_vector (elems other) 0) ()"
        if na: "\<not> alloc_fails E (Size other * sizeof_T E)"
          and nt: "\<forall>i<Size other. copy_ctor_throws E (elems other ! i) = None"
      proof -
        have "\<exists>b. uninitialized_copy_n_loop E (map Some ys @ replicate t None) 0 (length ys)
                    (replicate (length ys) None) 0 = Inr b"
        proof (rule uninitialized_copy_n_total_on)
          fix i :: nat assume "0 \<le> i" "i < 0 + length ys"
          then show "copy_ctor_throws E (the ((map Some ys @ replicate t None) ! i)) = None"
            using nt by (simp add: sz nth_append)
        qed
        then show ?thesis
          unfolding eq vc using na by (auto simp: sz Swap_fst)
      qed
      from b1 b2 b3 show ?thesis by blast
    qed
    from a b show ?thesis by blast
  qed
  from 1 2 3 show ?thesis unfolding sz by blast
qed

theorem copy_assignment_witness:
  "invariant (mk_vector [1::nat] 3) \<and> invariant (mk_vector [7, 8, 9::nat] 0) \<and>
   Size (mk_vector [7, 8, 9::nat] 0) \<le> Capacity (mk_vector [1::nat] 3) \<and>
   operator_assign_copy (quiet 0) False (mk_vector [1::nat] 3) (mk_vector [7, 8, 9] 0)
     = Returns (mk_vector [7, 8, 9] 1) () \<and>
   invariant (mk_vector [1, 2, 3::nat] 1) \<and> invariant (mk_vector [5, 6, 7, 8, 9::nat] 0) \<and>
   \<not> Size (mk_vector [5, 6, 7, 8, 9::nat] 0) \<le> Capacity (mk_vector [1, 2, 3::nat] 1) \<and>
   in_memory (quiet (0::nat)) (mk_vector [5, 6, 7, 8, 9::nat] 0) \<and>
   operator_assign_copy (quiet 0) False (mk_vector [1, 2, 3::nat] 1) (mk_vector [5, 6, 7, 8, 9] 0)
     = Returns (mk_vector [5, 6, 7, 8, 9] 0) () \<and>
   operator_assign_copy (copy_throws_on 8) False (mk_vector [1, 2, 3] 1)
       (mk_vector [5, 6, 7, 8, 9] 0)
     = Throws (T_exception 1) (mk_vector [1, 2, 3] 1) \<and>
   operator_assign_copy (quiet 0) False (mk_vector [1, 2, 3::nat] 1) (mk_vector [7, 8] 0)
     = Returns (mk_vector [7, 8] 2) ()"
proof -
  have inv: "invariant (mk_vector [1::nat] 3)" "invariant (mk_vector [7, 8, 9::nat] 0)"
    "invariant (mk_vector [1, 2, 3::nat] 1)" "invariant (mk_vector [5, 6, 7, 8, 9::nat] 0)"
    "invariant (mk_vector [7, 8::nat] 0)"
    by (rule mk_vector_invariant)+
  have q: "\<And>x y. copy_assign_throws (quiet (0::nat)) x y = None"
    "\<And>x. copy_ctor_throws (quiet (0::nat)) x = None"
    "\<And>n. \<not> alloc_fails (quiet (0::nat)) n"
    by (simp_all add: quiet_def)
  have fits: "Size (mk_vector [7, 8, 9::nat] 0) \<le> Capacity (mk_vector [1::nat] 3)"
    "\<not> Size (mk_vector [5, 6, 7, 8, 9::nat] 0) \<le> Capacity (mk_vector [1, 2, 3::nat] 1)"
    "Size (mk_vector [7, 8::nat] 0) \<le> Capacity (mk_vector [1, 2, 3::nat] 1)"
    by (simp_all add: Size_def size_v_mk_vector Capacity_mk_vector)
  have mem: "in_memory (quiet (0::nat)) (mk_vector [5, 6, 7, 8, 9::nat] 0)"
    by (simp add: in_memory_mk_vector quiet_def PTRDIFF_MAX_def)
  have d: "operator_assign_copy (copy_throws_on 8) False (mk_vector [1, 2, 3] 1)
       (mk_vector [5, 6, 7, 8, 9] 0) = Throws (T_exception 1) (mk_vector [1, 2, 3] 1)"
    by code_simp
  have a: "operator_assign_copy (quiet 0) False (mk_vector [1::nat] 3) (mk_vector [7, 8, 9] 0)
     = Returns (mk_vector [7, 8, 9] 1) ()"
    using copy_assignment [OF inv(1) inv(2), of "quiet 0"] fits(1) q
    by (simp add: elems_mk_vector Capacity_mk_vector Size_def size_v_mk_vector)
  have b: "operator_assign_copy (quiet 0) False (mk_vector [1, 2, 3::nat] 1) (mk_vector [7, 8] 0)
     = Returns (mk_vector [7, 8] 2) ()"
    using copy_assignment [OF inv(3) inv(5), of "quiet 0"] fits(3) q
    by (simp add: elems_mk_vector Capacity_mk_vector Size_def size_v_mk_vector numeral_2_eq_2)
  have c: "operator_assign_copy (quiet 0) False (mk_vector [1, 2, 3::nat] 1)
      (mk_vector [5, 6, 7, 8, 9] 0) = Returns (mk_vector [5, 6, 7, 8, 9] 0) ()"
    using copy_assignment [OF inv(3) inv(4), of "quiet 0"] fits(2) q mem
    by (simp add: elems_mk_vector Capacity_mk_vector Size_def size_v_mk_vector)
  show ?thesis using inv fits mem a b c d by simp
qed

section \<open>Insertion\<close>

lemma length_after_args: "length (after_args E args xs) = length xs"
  by (induction E args xs rule: after_args.induct) simp_all

lemma new_element_mk_vector:
  assumes "new_element E (mk_vector xs spare) args = Made x b"
  shows "b = map Some (after_args E args xs) @ replicate spare None"
proof (cases args)
  case (Construct r)
  with assms show ?thesis by (auto simp: slots_mk_vector split: sum.splits)
next
  case (Copy r)
  with assms show ?thesis by (auto simp: slots_mk_vector split: sum.splits option.splits)
next
  case (Move r)
  show ?thesis
  proof (cases r)
    case (Outside y)
    with assms Move show ?thesis by (auto simp: slots_mk_vector split: sum.splits option.splits)
  next
    case (Element i)
    with assms Move have i: "i < length xs"
      by (auto simp: size_v_mk_vector split: if_splits option.splits)
    then have "element (slots (mk_vector xs spare)) i = Some (xs ! i)"
      by (simp add: element_def slots_mk_vector nth_append)
    with assms Move Element i have "x = xs ! i"
      and "b = (map Some xs @ replicate spare None)[i := Some (moved_from E x)]"
      by (auto simp: size_v_mk_vector slots_mk_vector move_construct_def
          split: sum.splits option.splits)
    with i Move Element show ?thesis by (simp add: list_update_append map_update)
  qed
qed


lemma relocate_n_length:
  assumes "relocate_n E src first n dst d_first = Some (Inr (src', dst'))"
  shows "length dst' = length dst"
proof -
  note r = relocate_n_Inr(1,2,3) [OF assms]
  have "length (take n (drop first src)) = n" using r(1) by simp
  then have "length dst' = d_first + n + (length dst - (d_first + n))"
    using r(2) by (simp add: r(3))
  with r(2) show ?thesis by simp
qed

lemma in_memory_bounds:
  assumes "in_memory E (mk_vector xs spare)"
  shows "0 < sizeof_T E" and "length xs + spare \<le> PTRDIFF_MAX"
    and "size_t (length xs + 1) = length xs + 1" and "size_t (length xs * 2) = length xs * 2"
    and "(if xs = [] then 1 else length xs * 2) * sizeof_T E < 2 ^ 64"
proof -
  let ?z = "sizeof_T E"
  from assms show z: "0 < ?z" by (simp add: in_memory_mk_vector)
  from assms have zm: "?z \<le> PTRDIFF_MAX" and c: "(length xs + spare) * ?z \<le> PTRDIFF_MAX"
    by (simp_all add: in_memory_mk_vector)
  have "length xs + spare \<le> (length xs + spare) * ?z" using z by simp
  with c show le: "length xs + spare \<le> PTRDIFF_MAX" by linarith
  then have n: "length xs < 2 ^ 63" by (simp add: PTRDIFF_MAX_def)
  then show "size_t (length xs + 1) = length xs + 1" "size_t (length xs * 2) = length xs * 2"
    by (simp_all add: size_t_def)
  have "length xs * ?z \<le> (length xs + spare) * ?z" by simp
  with c have "length xs * ?z \<le> PTRDIFF_MAX" by linarith
  then have "length xs * 2 * ?z < 2 ^ 64" by (simp add: PTRDIFF_MAX_def)
  moreover have "1 * ?z < 2 ^ 64" using zm by (simp add: PTRDIFF_MAX_def)
  ultimately show "(if xs = [] then 1 else length xs * 2) * ?z < 2 ^ 64" by simp
qed

lemma Emplace_full:
  assumes p: "p \<le> length xs" and mem: "in_memory E (mk_vector xs 0)"
    and c: "c = (if xs = [] then 1 else length xs * 2)"
  shows "Emplace E (mk_vector xs 0) p args =
     (if PTRDIFF_MAX < c * sizeof_T E \<or> alloc_fails E (c * sizeof_T E)
      then Throws bad_alloc (mk_vector xs 0)
      else
        (case new_element E (mk_vector xs 0) args of
           Dangling \<Rightarrow> Undefined_behaviour
         | Failed e \<Rightarrow> Throws e (mk_vector xs 0)
         | Made x b \<Rightarrow>
             (case relocate_n E b 0 p ((replicate c None)[p := Some x]) 0 of
                None \<Rightarrow> Undefined_behaviour
              | Some (Inl (e, src)) \<Rightarrow> Throws e (set_slots (mk_vector xs 0) src)
              | Some (Inr (src, dst)) \<Rightarrow>
                  (case relocate_n E src p (length xs - p) dst (p + 1) of
                     None \<Rightarrow> Undefined_behaviour
                   | Some (Inl (e, src')) \<Rightarrow> Throws e (set_slots (mk_vector xs 0) src')
                   | Some (Inr (src', dst')) \<Rightarrow>
                       (case destroy_n src' 0 (length xs) of
                          None \<Rightarrow> Undefined_behaviour
                        | Some old \<Rightarrow>
                            Returns \<lparr>data_v = \<lparr>buffer_m = dst', capacity_m = c\<rparr>,
                                     size_v = length xs + 1\<rparr> p)))))"
proof -
  let ?v = "mk_vector xs 0"
  note b = in_memory_bounds [OF mem]
  have sz: "size_v ?v = length xs" "RawMemory_Capacity (data_v ?v) = length xs"
    by (simp_all add: mk_vector_def RawMemory_Capacity_def)
  have c0: "c \<noteq> 0" and pc: "p < c" using c p by (cases xs; simp)+
  have c_eq: "(if length xs = 0 then 1 else size_t (length xs * 2)) = c"
    using c b(4) by simp
  have new: "RawMemory_new E c =
      (if PTRDIFF_MAX < c * sizeof_T E \<or> alloc_fails E (c * sizeof_T E) then Inl bad_alloc
       else Inr \<lparr>buffer_m = replicate c None, capacity_m = c\<rparr>)"
    using c0 b(5) by (simp add: RawMemory_new_cases [OF b(1)] c)
  have ca: "construct_at (replicate c None) p x = Some ((replicate c None)[p := Some x])" for x :: 'a
    using pc by (simp add: construct_at_def)
  have upd: "\<And>d n. ?v\<lparr>data_v := d, size_v := n\<rparr> = \<lparr>data_v = d, size_v = n\<rparr>"
    by simp
  have s1: "size_t (Suc (length xs)) = Suc (length xs)" using b(3) by simp
  show ?thesis
    unfolding Emplace_def sz c_eq new using p
    by (simp add: ca s1 RawMemory_Swap_def upd
        split: made.splits option.splits sum.splits prod.splits)
qed

lemma grown_block:
  assumes r1: "relocate_n E (map Some ys) 0 p ((replicate c None)[p := Some x]) 0
                 = Some (Inr (src, dst))"
    and r2: "relocate_n E src p (length ys - p) dst (p + 1) = Some (Inr (src', dst'))"
    and p: "p \<le> length ys" and c: "length ys < c"
  shows "dst' = map Some (take p ys @ x # drop p ys) @ replicate (c - Suc (length ys)) None"
    and "length src' = length ys"
proof -
  let ?n = "length ys"
  let ?nb = "(replicate c None)[p := Some x]"
  have dst: "dst = map Some (take p ys) @ drop p ?nb"
    and src: "length src = ?n" "drop p src = drop p (map Some ys)"
    using relocate_n_Inr [OF r1] p c by (simp_all add: take_map map_Some_the)
  have "dst' = take (p + 1) dst @ map (\<lambda>s. Some (the s)) (take (?n - p) (drop p src))
            @ drop (p + 1 + (?n - p)) dst"
    using relocate_n_Inr(3) [OF r2] by simp
  moreover have "take (p + 1) dst = map Some (take p ys) @ [Some x]"
    using p c by (simp add: dst take_Suc_conv_app_nth)
  moreover have "map (\<lambda>s. Some (the s)) (take (?n - p) (drop p src)) = map Some (drop p ys)"
    using p by (simp add: src drop_map map_Some_the)
  moreover have "drop (p + 1 + (?n - p)) dst = replicate (c - Suc ?n) None"
    using p c by (simp add: dst)
  ultimately show "dst' = map Some (take p ys @ x # drop p ys) @ replicate (c - Suc ?n) None"
    by simp
  show "length src' = ?n" using relocate_n_Inr(4) [OF r2] src by simp
qed

lemma Emplace_grow:
  assumes r: "Emplace E (mk_vector xs 0) p args = Returns v' it"
    and p: "p \<le> length xs" and mem: "in_memory E (mk_vector xs 0)"
  shows "\<exists>x b. new_element E (mk_vector xs 0) args = Made x b \<and> it = p \<and>
           v' = mk_vector (take p (after_args E args xs) @ x # drop p (after_args E args xs))
                  (max 1 (2 * length xs) - Suc (length xs))"
proof -
  let ?n = "length xs"
  let ?ys = "after_args E args xs"
  define c where "c = (if xs = [] then 1 else ?n * 2)"
  note full = Emplace_full [OF p mem c_def, of args]
  from r full obtain x b where ne: "new_element E (mk_vector xs 0) args = Made x b"
    by (cases "new_element E (mk_vector xs 0) args") (auto split: if_splits)
  from new_element_mk_vector [OF ne] have b: "b = map Some ?ys" by simp
  have len: "length ?ys = ?n" by (rule length_after_args)
  let ?nb = "(replicate c None)[p := Some x]"
  from r full ne obtain src dst where
    r1: "relocate_n E b 0 p ?nb 0 = Some (Inr (src, dst))"
    by (cases "relocate_n E b 0 p ?nb 0") (auto split: if_splits sum.splits)
  with r full ne obtain src' dst' where
    r2: "relocate_n E src p (?n - p) dst (p + 1) = Some (Inr (src', dst'))"
    by (cases "relocate_n E src p (?n - p) dst (p + 1)") (auto split: if_splits sum.splits)
  from r full ne r1 r2 have
    v': "v' = \<lparr>data_v = \<lparr>buffer_m = dst', capacity_m = c\<rparr>, size_v = ?n + 1\<rparr>" and it: "it = p"
    by (simp_all split: if_splits option.splits)
  have c: "?n < c" by (cases xs) (simp_all add: c_def)
  have "dst' = map Some (take p ?ys @ x # drop p ?ys) @ replicate (c - Suc (length ?ys)) None"
    by (rule grown_block(1) [OF r1 [unfolded b] r2 [folded len]]) (simp_all add: len p c)
  moreover have "c = max 1 (2 * ?n)" by (cases xs) (simp_all add: max_def c_def)
  ultimately have "v' = mk_vector (take p ?ys @ x # drop p ?ys) (max 1 (2 * ?n) - Suc ?n)"
    using p c by (simp add: v' mk_vector_def len)
  with ne it show ?thesis by simp
qed

lemma Emplace_grow_returns:
  assumes ne: "new_element E (mk_vector xs 0) args = Made x b"
    and nc: "\<And>x. copy_ctor_throws E x = None" and nm: "\<And>x. move_ctor_throws E x = None"
    and p: "p \<le> length xs" and mem: "in_memory E (mk_vector xs 0)"
    and fits: "max 1 (2 * length xs) * sizeof_T E \<le> PTRDIFF_MAX"
    and grant: "\<not> alloc_fails E (max 1 (2 * length xs) * sizeof_T E)"
  shows "Emplace E (mk_vector xs 0) p args =
           Returns (mk_vector (take p (after_args E args xs) @ x # drop p (after_args E args xs))
                      (max 1 (2 * length xs) - Suc (length xs))) p"
proof -
  let ?n = "length xs"
  let ?ys = "after_args E args xs"
  define c where "c = (if xs = [] then 1 else ?n * 2)"
  have cm: "c = max 1 (2 * ?n)" by (cases xs) (simp_all add: max_def c_def)
  have c: "?n < c" by (cases xs) (simp_all add: c_def)
  note full = Emplace_full [OF p mem c_def, of args]
  from new_element_mk_vector [OF ne] have b: "b = map Some ?ys" by simp
  have len: "length ?ys = ?n" by (rule length_after_args)
  let ?nb = "(replicate c None)[p := Some x]"
  have "\<exists>s d. relocate_n E b 0 p ?nb 0 = Some (Inr (s, d))"
    by (rule relocate_n_total [OF nc nm]) (use p c in \<open>simp_all add: b len\<close>)
  then obtain src dst where r1: "relocate_n E b 0 p ?nb 0 = Some (Inr (src, dst))" by blast
  have ls: "length src = ?n" using relocate_n_Inr(4) [OF r1] by (simp add: b len)
  have ld: "length dst = c" using relocate_n_length [OF r1] by simp
  have "\<exists>s d. relocate_n E src p (?n - p) dst (p + 1) = Some (Inr (s, d))"
    by (rule relocate_n_total [OF nc nm]) (use p c in \<open>simp_all add: ls ld\<close>)
  then obtain src' dst' where
    r2: "relocate_n E src p (?n - p) dst (p + 1) = Some (Inr (src', dst'))" by blast
  have "length src' = ?n" using relocate_n_Inr(4) [OF r2] ls by simp
  then have d: "destroy_n src' 0 ?n = Some (destroy_n_loop src' 0 ?n)"
    by (simp add: destroy_n_def)
  have "\<exists>w. Emplace E (mk_vector xs 0) p args = Returns w p"
    unfolding full using fits grant ne r1 r2 d by (simp add: cm)
  then obtain w where w: "Emplace E (mk_vector xs 0) p args = Returns w p" ..
  from Emplace_grow [OF w p mem] ne w show ?thesis by simp
qed

lemma Emplace_catch_not_Returns: "Emplace_catch e v \<noteq> Returns v' it"
  by (simp add: Emplace_catch_def split: option.splits)

lemma shifted_block:
  assumes p: "p < length xs"
    and len: "length b' = length xs + Suc spare"
    and nth: "\<And>i. i < length xs + Suc spare \<Longrightarrow> b' ! i =
      (if p < i \<and> i \<le> length xs - 1 then b ! (i - 1)
       else if i = p \<and> p < length xs - 1 then Some m
       else b ! i)"
    and b: "b = (map Some xs @ replicate (Suc spare) None)
                  [length xs := Some (xs ! (length xs - 1)), length xs - 1 := Some m']"
  shows "b'[p := Some x] = map Some (take p xs @ x # drop p xs) @ replicate spare None"
proof (rule nth_equalityI)
  show "length (b'[p := Some x]) = length (map Some (take p xs @ x # drop p xs) @ replicate spare None)"
    using p len by simp
next
  fix i assume "i < length (b'[p := Some x])"
  then have i: "i < length xs + Suc spare" using len by simp
  let ?n = "length xs"
  consider "i < p" | "i = p" | "p < i" "i \<le> ?n - 1" | "i = ?n" | "?n < i" using p by linarith
  then show "b'[p := Some x] ! i = (map Some (take p xs @ x # drop p xs) @ replicate spare None) ! i"
  proof cases
    case 1
    then show ?thesis using p i len nth [OF i] by (simp add: b nth_append)
  next
    case 2
    then show ?thesis using p i len by (simp add: nth_append)
  next
    case 3
    then have "b' ! i = b ! (i - 1)" using nth [OF i] by simp
    also have "\<dots> = Some (xs ! (i - 1))" using 3 p by (simp add: b nth_append)
    finally show ?thesis using 3 p i len by (simp add: nth_append nth_Cons')
  next
    case 4
    then have "\<not> i \<le> ?n - 1" "i \<noteq> p" using p by simp_all
    then have "b' ! i = b ! i" using nth [OF i] by simp
    also have "\<dots> = Some (xs ! (?n - 1))" using 4 p by (simp add: b nth_append)
    finally show ?thesis using 4 p i len by (simp add: nth_append nth_Cons')
  next
    case 5
    then have "\<not> i \<le> ?n - 1" "i \<noteq> p" using p by simp_all
    then have "b' ! i = b ! i" using nth [OF i] by simp
    also have "\<dots> = None" using 5 p i by (simp add: b nth_append)
    finally have l: "b' ! i = None" .
    define A where "A = map Some (take p xs @ x # drop p xs)"
    have "length A = Suc ?n" using p by (simp add: A_def)
    then have "(A @ replicate spare None) ! i = None"
      using 5 i by (simp add: nth_append)
    then show ?thesis using 5 p l by (simp add: A_def)
  qed
qed

lemma Emplace_try_block_end:
  assumes ne: "new_element E (mk_vector xs (Suc spare)) args = Made x b0"
  shows "Emplace_try_block E (mk_vector xs (Suc spare)) (length xs) args =
           Some (Inr (set_slots (mk_vector xs (Suc spare))
                        (map Some (after_args E args xs @ [x]) @ replicate spare None)))"
proof -
  let ?ys = "after_args E args xs"
  have len: "length ?ys = length xs" by (rule length_after_args)
  from new_element_mk_vector [OF ne] have b0: "b0 = map Some ?ys @ replicate (Suc spare) None" .
  have "construct_at b0 (length xs) x = Some (b0[length xs := Some x])"
    by (simp add: construct_at_def b0 len)
  moreover have "b0[length xs := Some x] = map Some (?ys @ [x]) @ replicate spare None"
    using len by (simp add: b0 list_update_append)
  ultimately show ?thesis
    using ne by (simp add: Emplace_try_block_def size_v_mk_vector)
qed

lemma Emplace_try_block_middle:
  assumes ne: "new_element E (mk_vector xs (Suc spare)) args = Made x b0"
    and p: "p < length xs"
    and y: "y = after_args E args xs ! (length xs - 1)"
  shows "Emplace_try_block E (mk_vector xs (Suc spare)) p args =
     (case move_ctor_throws E y of
        Some e \<Rightarrow> Some (Inl (e, set_slots (mk_vector xs (Suc spare)) b0))
      | None \<Rightarrow>
          (case move_backward_loop E
                  (b0[length xs := Some y, length xs - 1 := Some (moved_from E y)])
                  p (length xs - 1) (length xs) of
             Inl (e, b') \<Rightarrow> Some (Inl (e, set_slots (mk_vector xs (Suc spare)) b'))
           | Inr b' \<Rightarrow>
               (case move_assign_throws E (the (b' ! p)) x of
                  Some e \<Rightarrow> Some (Inl (e, set_slots (mk_vector xs (Suc spare)) b'))
                | None \<Rightarrow>
                    Some (Inr (set_slots (mk_vector xs (Suc spare)) (b'[p := Some x]))))))"
proof -
  let ?n = "length xs"
  let ?ys = "after_args E args xs"
  have len: "length ?ys = ?n" by (rule length_after_args)
  from new_element_mk_vector [OF ne] have b0: "b0 = map Some ?ys @ replicate (Suc spare) None" .
  have lb: "length b0 = ?n + Suc spare" by (simp add: b0 len)
  have "?n - 1 < length ?ys" using p len by simp
  then have "b0 ! (?n - 1) = Some y" by (simp add: b0 y nth_append)
  then have el: "element b0 (?n - 1) = Some y" using lb by (simp add: element_def)
  have ca: "construct_at b0 ?n y = Some (b0[?n := Some y])"
    by (simp add: construct_at_def lb)
  let ?b = "b0[?n := Some y, ?n - 1 := Some (moved_from E y)]"
  have mb: "move_backward E ?b p (?n - 1) ?n = Some (move_backward_loop E ?b p (?n - 1) ?n)"
    using p lb by (auto simp: move_backward_def)
  have np: "p \<noteq> ?n" using p by simp
  show ?thesis
    unfolding Emplace_try_block_def size_v_mk_vector
    using np ne el ca mb
    by (simp add: move_construct_def Let_def split: option.splits sum.splits prod.splits)
qed

lemma Emplace_spare_unfold:
  assumes p: "p \<le> length xs" and mem: "in_memory E (mk_vector xs (Suc spare))"
  shows "Emplace E (mk_vector xs (Suc spare)) p args =
     (case Emplace_try_block E (mk_vector xs (Suc spare)) p args of
        None \<Rightarrow> Undefined_behaviour
      | Some (Inl (e, v)) \<Rightarrow> Emplace_catch e v
      | Some (Inr v) \<Rightarrow> Returns (v\<lparr>size_v := size_t (size_v v + 1)\<rparr>) p)"
  using p by (simp add: Emplace_def size_v_mk_vector RawMemory_Capacity_mk_vector)

lemma Emplace_spare:
  assumes r: "Emplace E (mk_vector xs (Suc spare)) p args = Returns v' it"
    and p: "p \<le> length xs" and mem: "in_memory E (mk_vector xs (Suc spare))"
  shows "\<exists>x b. new_element E (mk_vector xs (Suc spare)) args = Made x b \<and> it = p \<and>
           v' = mk_vector (take p (after_args E args xs) @ x # drop p (after_args E args xs))
                  spare"
proof -
  let ?n = "length xs"
  let ?v = "mk_vector xs (Suc spare)"
  let ?ys = "after_args E args xs"
  have len: "length ?ys = ?n" by (rule length_after_args)
  note un = Emplace_spare_unfold [OF p mem, of args]
  from r obtain v1 where
    tb: "Emplace_try_block E ?v p args = Some (Inr v1)" and
    v': "v' = v1\<lparr>size_v := size_t (size_v v1 + 1)\<rparr>" and it: "it = p"
    unfolding un
    by (auto simp: Emplace_catch_not_Returns split: option.splits sum.splits prod.splits)
  from tb obtain x b0 where ne: "new_element E ?v args = Made x b0"
    by (cases "new_element E ?v args") (auto simp: Emplace_try_block_def split: if_splits)
  from new_element_mk_vector [OF ne] have b0: "b0 = map Some ?ys @ replicate (Suc spare) None" .
  have "v1 = \<lparr>data_v = \<lparr>buffer_m = map Some (take p ?ys @ x # drop p ?ys) @ replicate spare None,
                          capacity_m = ?n + Suc spare\<rparr>, size_v = ?n\<rparr>"
  proof (cases "p = ?n")
    case True
    with tb Emplace_try_block_end [OF ne] show ?thesis
      by (simp add: set_slots_mk_vector len)
  next
    case False
    with p have lt: "p < ?n" by simp
    define y where "y = ?ys ! (?n - 1)"
    let ?b = "b0[?n := Some y, ?n - 1 := Some (moved_from E y)]"
    note mid = Emplace_try_block_middle [OF ne lt y_def]
    from tb mid obtain b' where
      mb: "move_backward_loop E ?b p (?n - 1) ?n = Inr b'" and
      v1: "v1 = set_slots ?v (b'[p := Some x])"
      by (auto split: sum.splits option.splits prod.splits)
    have "Suc (?n - 1) = ?n" using lt by simp
    then have "move_backward_loop E ?b p (?n - 1) (Suc (?n - 1)) = Inr b'"
      using mb by (simp only:)
    from move_backward_Inr [OF this] lt
    have lenb: "length b' = length ?ys + Suc spare"
      and nth: "\<And>i. i < length ?ys + Suc spare \<Longrightarrow> b' ! i =
        (if p < i \<and> i \<le> length ?ys - 1 then ?b ! (i - 1)
         else if i = p \<and> p < length ?ys - 1 then Some (moved_from E (the (?b ! p)))
         else ?b ! i)"
      by (simp_all add: b0 len)
    have lt': "p < length ?ys" using lt len by simp
    have "b'[p := Some x] = map Some (take p ?ys @ x # drop p ?ys) @ replicate spare None"
    proof (rule shifted_block [OF lt' lenb nth])
      show "?b = (map Some ?ys @ replicate (Suc spare) None)
                   [length ?ys := Some (?ys ! (length ?ys - 1)),
                    length ?ys - 1 := Some (moved_from E y)]"
        by (simp only: y_def b0 len)
    qed
    then show ?thesis using lenb by (simp add: v1 set_slots_mk_vector len)
  qed
  moreover have "size_t (?n + 1) = ?n + 1" by (rule in_memory_bounds(3) [OF mem])
  ultimately have "v' = mk_vector (take p ?ys @ x # drop p ?ys) spare"
    using p by (simp add: v' mk_vector_def len)
  with ne it show ?thesis by simp
qed


lemma Emplace_Returns_position: "Emplace E v p args = Returns v' it \<Longrightarrow> p \<le> size_v v"
  by (auto simp: Emplace_def split: if_splits)

lemma Emplace_mk_vector:
  assumes r: "Emplace E (mk_vector xs spare) p args = Returns v' it"
    and mem: "in_memory E (mk_vector xs spare)"
  shows "\<exists>x b. new_element E (mk_vector xs spare) args = Made x b \<and> it = p \<and>
           p \<le> length xs \<and>
           v' = mk_vector (take p (after_args E args xs) @ x # drop p (after_args E args xs))
                  (if spare = 0 then max 1 (2 * length xs) - Suc (length xs) else spare - 1)"
proof -
  from Emplace_Returns_position [OF r] have p: "p \<le> length xs"
    by (simp add: size_v_mk_vector)
  show ?thesis
  proof (cases spare)
    case 0
    with Emplace_grow [of E xs p args v' it] r p mem show ?thesis by simp
  next
    case (Suc k)
    with Emplace_spare [of E xs k p args v' it] r p mem show ?thesis by simp
  qed
qed


lemma PushBack_Returns_iff:
  "PushBack E v args = Returns v' () \<longleftrightarrow> Emplace E v (size_v v) args = Returns v' (size_v v)"
proof (cases "size_v v < RawMemory_Capacity (data_v v)")
  case True
  then show ?thesis
    by (simp add: PushBack_def Emplace_def Emplace_try_block_def Emplace_catch_not_Returns
        size_v_set_slots split: made.splits option.splits)
next
  case False
  let ?n = "size_v v"
  define c where "c = (if ?n = 0 then 1 else size_t (?n * 2))"
  have pb: "PushBack E v args =
        (case RawMemory_new E c of
           Inl e \<Rightarrow> Throws e v
         | Inr new_data \<Rightarrow>
             (case new_element E v args of
                Dangling \<Rightarrow> Undefined_behaviour
              | Failed e \<Rightarrow> Throws e v
              | Made x b \<Rightarrow>
                  (case construct_at (buffer_m new_data) ?n x of
                     None \<Rightarrow> Undefined_behaviour
                   | Some nb \<Rightarrow>
                       (case relocate_n E b 0 ?n nb 0 of
                          None \<Rightarrow> Undefined_behaviour
                        | Some (Inl (e, src)) \<Rightarrow> Throws e (set_slots v src)
                        | Some (Inr (src, dst)) \<Rightarrow>
                            (case destroy_n src 0 ?n of
                               None \<Rightarrow> Undefined_behaviour
                             | Some old \<Rightarrow>
                                 (let (d, d') =
                                        RawMemory_Swap ((data_v v)\<lparr>buffer_m := old\<rparr>)
                                          (new_data\<lparr>buffer_m := dst\<rparr>)
                                  in Returns (v\<lparr>data_v := d,
                                                   size_v := size_t (?n + 1)\<rparr>) ()))))))"
    using False unfolding PushBack_def c_def by simp
  have em: "Emplace E v ?n args =
        (case RawMemory_new E c of
           Inl e \<Rightarrow> Throws e v
         | Inr new_data \<Rightarrow>
             (case new_element E v args of
                Dangling \<Rightarrow> Undefined_behaviour
              | Failed e \<Rightarrow> Throws e v
              | Made x b \<Rightarrow>
                  (case construct_at (buffer_m new_data) ?n x of
                     None \<Rightarrow> Undefined_behaviour
                   | Some nb \<Rightarrow>
                       (case relocate_n E b 0 ?n nb 0 of
                          None \<Rightarrow> Undefined_behaviour
                        | Some (Inl (e, src)) \<Rightarrow> Throws e (set_slots v src)
                        | Some (Inr (src, dst)) \<Rightarrow>
                            (case relocate_n E src ?n (?n - ?n) dst (?n + 1) of
                               None \<Rightarrow> Undefined_behaviour
                             | Some (Inl (e, src')) \<Rightarrow> Throws e (set_slots v src')
                             | Some (Inr (src', dst')) \<Rightarrow>
                                 (case destroy_n src' 0 ?n of
                                    None \<Rightarrow> Undefined_behaviour
                                  | Some old \<Rightarrow>
                                      (let (d, d') =
                                             RawMemory_Swap
                                               ((data_v v)\<lparr>buffer_m := old\<rparr>)
                                               (new_data\<lparr>buffer_m := dst'\<rparr>)
                                       in Returns
                                            (v\<lparr>data_v := d, size_v := size_t (?n + 1)\<rparr>)
                                            ?n)))))))"
    using False unfolding Emplace_def c_def by simp
  have r0: "relocate_n E src ?n 0 dst (Suc ?n) = Some (Inr (src, dst))"
    if ca: "construct_at buf ?n x = Some nb"
      and r: "relocate_n E b 0 ?n nb 0 = Some (Inr (src, dst))" for buf x nb b src dst
  proof -
    from ca have "?n < length nb" by (auto simp: construct_at_def split: if_splits)
    then have "Suc ?n \<le> length dst" using relocate_n_length [OF r] by simp
    moreover have "?n \<le> length src" using relocate_n_Inr(1,4) [OF r] by simp
    ultimately show ?thesis by (simp add: relocate_n_0)
  qed
  show ?thesis
  proof (cases "RawMemory_new E c")
    case (Inl e)
    then show ?thesis unfolding pb em by simp
  next
    case nd: (Inr new_data)
    show ?thesis
    proof (cases "new_element E v args")
      case Dangling
      with nd show ?thesis unfolding pb em by simp
    next
      case (Failed e)
      with nd show ?thesis unfolding pb em by simp
    next
      case (Made x b)
      show ?thesis
      proof (cases "construct_at (buffer_m new_data) ?n x")
        case None
        with nd Made show ?thesis unfolding pb em by simp
      next
        case ca: (Some nb)
        show ?thesis
        proof (cases "relocate_n E b 0 ?n nb 0")
          case None
          with nd Made ca show ?thesis unfolding pb em by simp
        next
          case (Some a)
          show ?thesis
          proof (cases a)
            case (Inl el)
            with nd Made ca Some show ?thesis unfolding pb em by (simp split: prod.splits)
          next
            case (Inr sd)
            obtain src dst where sd: "sd = (src, dst)" by (cases sd)
            from Some Inr sd have r: "relocate_n E b 0 ?n nb 0 = Some (Inr (src, dst))" by simp
            note r0 [OF ca r]
            with nd Made ca r show ?thesis
              unfolding pb em by (simp split: option.splits prod.splits)
          qed
        qed
      qed
    qed
  qed
qed

lemma EmplaceBack_Returns_iff:
  "EmplaceBack E v args = Returns v' r \<longleftrightarrow>
   (\<exists>it. Emplace E v (size_v v) args = Returns v' it \<and> element (slots v') it = Some r)"
  by (auto simp: EmplaceBack_def split: outcome.splits option.splits)




section \<open>Growth of a full vector\<close>

text \<open>
  C7. On a full vector (\<open>size = capacity\<close>) whose block is in memory, a PushBack, an
  EmplaceBack or an Emplace at any position that returns has grown the capacity to
  exactly \<open>max 1 (2 * size)\<close> (so an empty vector of capacity 0 gets capacity 1); the size is one more, and the elements held
  before are all there, in order, around the new one, with the values they had, except
  that an element of the vector that was passed as the rvalue to make the new element
  from is left moved-from. The call does return, with this result, when the new element
  can be made, no copy or move constructor of \<open>T\<close> throws and the allocator grants the
  new storage.
\<close>

theorem growth_doubles_capacity:
  assumes "invariant v" and "in_memory E v" and "Size v = Capacity v"
  shows "(PushBack E v args = Returns v' u \<longrightarrow>
            Capacity v' = max 1 (2 * Size v) \<and> Size v' = Size v + 1 \<and>
            (\<exists>x b. new_element E v args = Made x b \<and>
                   elems v' = after_args E args (elems v) @ [x])) \<and>
         (EmplaceBack E v args = Returns v' r \<longrightarrow>
            Capacity v' = max 1 (2 * Size v) \<and> Size v' = Size v + 1 \<and>
            (\<exists>b. new_element E v args = Made r b) \<and>
            elems v' = after_args E args (elems v) @ [r]) \<and>
         (Emplace E v p args = Returns v' it \<longrightarrow>
            Capacity v' = max 1 (2 * Size v) \<and> Size v' = Size v + 1 \<and>
            (\<exists>x b. new_element E v args = Made x b \<and>
                   elems v' = take p (after_args E args (elems v)) @ x
                                # drop p (after_args E args (elems v))) \<and>
            it = p) \<and>
         (PushBack E v (Construct (Inr x)) = Returns v' u \<or>
          EmplaceBack E v (Construct (Inr x)) = Returns v' r \<longrightarrow>
            Capacity v' = max 1 (2 * Size v) \<and> Size v' = Size v + 1 \<and>
            elems v' = elems v @ [x]) \<and>
         (new_element E v args = Made x b \<and>
          (\<forall>y. copy_ctor_throws E y = None) \<and> (\<forall>y. move_ctor_throws E y = None) \<and>
          max 1 (2 * Size v) * sizeof_T E \<le> PTRDIFF_MAX \<and>
          \<not> alloc_fails E (max 1 (2 * Size v) * sizeof_T E) \<longrightarrow>
            PushBack E v args =
              Returns (mk_vector (after_args E args (elems v) @ [x])
                         (max 1 (2 * Size v) - Size v - 1)) () \<and>
            EmplaceBack E v args =
              Returns (mk_vector (after_args E args (elems v) @ [x])
                         (max 1 (2 * Size v) - Size v - 1)) x \<and>
            (p \<le> Size v \<longrightarrow>
               Emplace E v p args =
                 Returns (mk_vector (take p (after_args E args (elems v)) @ x
                                      # drop p (after_args E args (elems v)))
                            (max 1 (2 * Size v) - Size v - 1)) p))"
proof -
  obtain xs spare where v0: "v = mk_vector xs spare"
    using invariant_mk_vector [OF assms(1)] by blast
  with assms(3) have "spare = 0"
    by (simp add: Size_def size_v_mk_vector Capacity_mk_vector)
  with v0 have v: "v = mk_vector xs 0" by simp
  have sz: "Size v = length xs" "elems v = xs" "size_v v = length xs"
    by (simp_all add: v Size_def size_v_mk_vector elems_mk_vector)
  have mem: "in_memory E (mk_vector xs 0)" using assms(2) v by simp
  have cap: "Suc (length xs + (max (Suc 0) (2 * length xs) - Suc (length xs)))
               = max (Suc 0) (2 * length xs)"
    by (cases xs) (simp_all add: max_def)
  have G: "\<exists>y b. new_element E v a = Made y b \<and> j = q \<and> q \<le> length xs \<and>
             w = mk_vector (take q (after_args E a xs) @ y # drop q (after_args E a xs))
                   (max 1 (2 * length xs) - Suc (length xs))"
    if "Emplace E v q a = Returns w j" for a w j q
    using Emplace_mk_vector [OF that [unfolded v] mem] unfolding v by simp
  have 3: "Capacity w = max 1 (2 * Size v) \<and> Size w = Size v + 1 \<and>
            (\<exists>y b. new_element E v a = Made y b \<and>
                   elems w = take q (after_args E a (elems v)) @ y
                                # drop q (after_args E a (elems v))) \<and>
            j = q"
    if r: "Emplace E v q a = Returns w j" for a w j q
  proof -
    from G [OF r] obtain y b where ne: "new_element E v a = Made y b" and j: "j = q"
      and q: "q \<le> length xs"
      and w: "w = mk_vector (take q (after_args E a xs) @ y # drop q (after_args E a xs))
                   (max 1 (2 * length xs) - Suc (length xs))"
      by blast
    have "Capacity w = max 1 (2 * length xs)" "Size w = length xs + 1"
      "elems w = take q (after_args E a xs) @ y # drop q (after_args E a xs)"
      using q by (simp_all add: w Capacity_mk_vector Size_def size_v_mk_vector elems_mk_vector
          length_after_args cap)
    with ne j show ?thesis unfolding sz by blast
  qed
  have 1: "Capacity w = max 1 (2 * Size v) \<and> Size w = Size v + 1 \<and>
            (\<exists>y b. new_element E v a = Made y b \<and> elems w = after_args E a (elems v) @ [y])"
    if r: "PushBack E v a = Returns w u" for a w
  proof -
    from r have "Emplace E v (length xs) a = Returns w (length xs)"
      using PushBack_Returns_iff [of E v a w] by (simp add: sz)
    from 3 [OF this] show ?thesis by (simp add: sz length_after_args)
  qed
  have 2: "Capacity w = max 1 (2 * Size v) \<and> Size w = Size v + 1 \<and>
            (\<exists>b. new_element E v a = Made r b) \<and> elems w = after_args E a (elems v) @ [r]"
    if r: "EmplaceBack E v a = Returns w r" for a w
  proof -
    from r obtain j where e: "Emplace E v (length xs) a = Returns w j"
      and el: "element (slots w) j = Some r"
      by (auto simp: EmplaceBack_Returns_iff sz)
    from G [OF e] obtain y b where ne: "new_element E v a = Made y b" and j: "j = length xs"
      and w: "w = mk_vector (after_args E a xs @ [y]) (max 1 (2 * length xs) - Suc (length xs))"
      by (auto simp: length_after_args)
    have "element (slots w) j = Some y"
      by (simp add: w j element_def slots_mk_vector nth_append length_after_args)
    with el have "y = r" by simp
    with 3 [OF e] ne show ?thesis by (auto simp: sz length_after_args)
  qed
  have 4: "Capacity v' = max 1 (2 * Size v) \<and> Size v' = Size v + 1 \<and>
            elems v' = elems v @ [x]"
    if r: "PushBack E v (Construct (Inr x)) = Returns v' u \<or>
          EmplaceBack E v (Construct (Inr x)) = Returns v' r"
    using r 1 [of "Construct (Inr x)" v'] 2 [of "Construct (Inr x)" v'] by auto
  have 5: "PushBack E v args =
              Returns (mk_vector (after_args E args (elems v) @ [x])
                         (max 1 (2 * Size v) - Size v - 1)) () \<and>
            EmplaceBack E v args =
              Returns (mk_vector (after_args E args (elems v) @ [x])
                         (max 1 (2 * Size v) - Size v - 1)) x \<and>
            (p \<le> Size v \<longrightarrow>
               Emplace E v p args =
                 Returns (mk_vector (take p (after_args E args (elems v)) @ x
                                      # drop p (after_args E args (elems v)))
                            (max 1 (2 * Size v) - Size v - 1)) p)"
    if ne: "new_element E v args = Made x b"
      and nc: "\<forall>y. copy_ctor_throws E y = None" and nm: "\<forall>y. move_ctor_throws E y = None"
      and fits: "max 1 (2 * Size v) * sizeof_T E \<le> PTRDIFF_MAX"
      and grant: "\<not> alloc_fails E (max 1 (2 * Size v) * sizeof_T E)"
  proof -
    have E: "Emplace E v q args =
           Returns (mk_vector (take q (after_args E args xs) @ x # drop q (after_args E args xs))
                      (max 1 (2 * length xs) - Suc (length xs))) q"
      if q: "q \<le> length xs" for q
      unfolding v
      by (rule Emplace_grow_returns [OF ne [unfolded v] _ _ q mem])
        (use nc nm fits grant in \<open>simp_all add: sz\<close>)
    let ?w = "mk_vector (after_args E args xs @ [x]) (max 1 (2 * length xs) - Suc (length xs))"
    from E [of "length xs"] have e: "Emplace E v (size_v v) args = Returns ?w (size_v v)"
      by (simp add: sz length_after_args)
    then have pb: "PushBack E v args = Returns ?w ()"
      by (simp add: PushBack_Returns_iff)
    have "element (slots ?w) (size_v v) = Some x"
      by (simp add: sz element_def slots_mk_vector nth_append length_after_args)
    with e have eb: "EmplaceBack E v args = Returns ?w x"
      by (simp add: EmplaceBack_def)
    from pb eb E show ?thesis unfolding sz by simp
  qed
  from 1 [of args v'] 2 [of args v'] 3 [of p args v' it] 4 5 show ?thesis by blast
qed

theorem growth_doubles_capacity_counterexample:
  "invariant (mk_vector [1, 2::nat] 0) \<and>
   Size (mk_vector [1, 2::nat] 0) = Capacity (mk_vector [1, 2::nat] 0) \<and>
   PushBack moved_from_is_zero (mk_vector [1, 2] 0) (Move (Element 0))
     = Returns (mk_vector [0, 2, 1] 1) () \<and>
   elems (mk_vector [1, 2::nat] 0) = [1, 2] \<and>
   elems (mk_vector [0, 2, 1::nat] 1) = [0, 2, 1] \<and>
   take 2 (elems (mk_vector [0, 2, 1::nat] 1)) \<noteq> elems (mk_vector [1, 2::nat] 0)"
  by code_simp

theorem growth_doubles_capacity_witness:
  "invariant (mk_vector [1, 2, 3::nat] 0) \<and>
   in_memory (quiet (0::nat)) (mk_vector [1, 2, 3::nat] 0) \<and>
   Size (mk_vector [1, 2, 3::nat] 0) = Capacity (mk_vector [1, 2, 3::nat] 0) \<and>
   PushBack (quiet 0) (mk_vector [1, 2, 3::nat] 0) (Construct (Inr 4))
     = Returns (mk_vector [1, 2, 3, 4] 2) () \<and>
   EmplaceBack (quiet 0) (mk_vector [1, 2, 3::nat] 0) (Construct (Inr 4))
     = Returns (mk_vector [1, 2, 3, 4] 2) 4 \<and>
   Emplace (quiet 0) (mk_vector [1, 2, 3::nat] 0) 1 (Construct (Inr 4))
     = Returns (mk_vector [1, 4, 2, 3] 2) 1 \<and>
   Capacity (mk_vector [1, 2, 3, 4::nat] 2) = 6 \<and>
   invariant (mk_vector [1, 2::nat] 0) \<and>
   in_memory moved_from_is_zero (mk_vector [1, 2::nat] 0) \<and>
   Size (mk_vector [1, 2::nat] 0) = Capacity (mk_vector [1, 2::nat] 0) \<and>
   PushBack moved_from_is_zero (mk_vector [1, 2] 0) (Move (Element 0))
     = Returns (mk_vector [0, 2, 1] 1) () \<and>
   (Vector_default :: nat Vector) = mk_vector [] 0 \<and>
   invariant (mk_vector ([]::nat list) 0) \<and>
   in_memory (quiet (0::nat)) (mk_vector ([]::nat list) 0) \<and>
   Size (mk_vector ([]::nat list) 0) = Capacity (mk_vector ([]::nat list) 0) \<and>
   PushBack (quiet 0) (mk_vector ([]::nat list) 0) (Construct (Inr 4))
     = Returns (mk_vector [4] 0) () \<and>
   Capacity (mk_vector [4::nat] 0) = 1"
proof -
  have inv: "invariant (mk_vector [1, 2, 3::nat] 0)" "invariant (mk_vector [1, 2::nat] 0)"
    "invariant (mk_vector ([]::nat list) 0)"
    by (rule mk_vector_invariant)+
  have mem: "in_memory (quiet (0::nat)) (mk_vector [1, 2, 3::nat] 0)"
    "in_memory moved_from_is_zero (mk_vector [1, 2::nat] 0)"
    "in_memory (quiet (0::nat)) (mk_vector ([]::nat list) 0)"
    by (simp_all add: in_memory_mk_vector moved_from_is_zero_def quiet_def PTRDIFF_MAX_def)
  have full: "Size (mk_vector [1, 2, 3::nat] 0) = Capacity (mk_vector [1, 2, 3::nat] 0)"
    "Size (mk_vector [1, 2::nat] 0) = Capacity (mk_vector [1, 2::nat] 0)"
    "Size (mk_vector ([]::nat list) 0) = Capacity (mk_vector ([]::nat list) 0)"
    by (simp_all add: Size_def size_v_mk_vector Capacity_mk_vector)
  have q: "\<And>y. copy_ctor_throws moved_from_is_zero y = None"
    "\<And>y. move_ctor_throws moved_from_is_zero y = None"
    "\<And>n. \<not> alloc_fails moved_from_is_zero n"
    "sizeof_T moved_from_is_zero = 4" "\<And>y. moved_from moved_from_is_zero y = 0"
    "\<And>y. copy_ctor_throws (quiet (0::nat)) y = None"
    "\<And>y. move_ctor_throws (quiet (0::nat)) y = None"
    "\<And>n. \<not> alloc_fails (quiet (0::nat)) n"
    "sizeof_T (quiet (0::nat)) = 4"
    by (simp_all add: moved_from_is_zero_def quiet_def)
  have ne: "new_element (quiet 0) (mk_vector [1, 2, 3::nat] 0) (Construct (Inr 4))
              = Made 4 [Some 1, Some 2, Some 3]"
    "new_element moved_from_is_zero (mk_vector [1, 2] 0) (Move (Element 0))
              = Made 1 [Some 0, Some 2]"
    "new_element (quiet 0) (mk_vector ([]::nat list) 0) (Construct (Inr 4)) = Made 4 []"
    by code_simp+
  let ?v1 = "mk_vector [1, 2, 3::nat] 0" and ?v2 = "mk_vector [1, 2::nat] 0"
    and ?v3 = "mk_vector ([]::nat list) 0"
  have pre1: "new_element (quiet 0) ?v1 (Construct (Inr 4)) = Made 4 [Some 1, Some 2, Some 3] \<and>
      (\<forall>y. copy_ctor_throws (quiet (0::nat)) y = None) \<and>
      (\<forall>y. move_ctor_throws (quiet (0::nat)) y = None) \<and>
      max 1 (2 * Size ?v1) * sizeof_T (quiet (0::nat)) \<le> PTRDIFF_MAX \<and>
      \<not> alloc_fails (quiet (0::nat)) (max 1 (2 * Size ?v1) * sizeof_T (quiet (0::nat)))"
    using ne(1) q by (simp add: Size_def size_v_mk_vector PTRDIFF_MAX_def)
  have pre2: "new_element moved_from_is_zero ?v2 (Move (Element 0)) = Made 1 [Some 0, Some 2] \<and>
      (\<forall>y. copy_ctor_throws moved_from_is_zero y = None) \<and>
      (\<forall>y. move_ctor_throws moved_from_is_zero y = None) \<and>
      max 1 (2 * Size ?v2) * sizeof_T moved_from_is_zero \<le> PTRDIFF_MAX \<and>
      \<not> alloc_fails moved_from_is_zero (max 1 (2 * Size ?v2) * sizeof_T moved_from_is_zero)"
    using ne(2) q by (simp add: Size_def size_v_mk_vector PTRDIFF_MAX_def)
  have pre3: "new_element (quiet 0) ?v3 (Construct (Inr 4)) = Made 4 [] \<and>
      (\<forall>y. copy_ctor_throws (quiet (0::nat)) y = None) \<and>
      (\<forall>y. move_ctor_throws (quiet (0::nat)) y = None) \<and>
      max 1 (2 * Size ?v3) * sizeof_T (quiet (0::nat)) \<le> PTRDIFF_MAX \<and>
      \<not> alloc_fails (quiet (0::nat)) (max 1 (2 * Size ?v3) * sizeof_T (quiet (0::nat)))"
    using ne(3) q by (simp add: Size_def size_v_mk_vector PTRDIFF_MAX_def)
  have le1: "1 \<le> Size ?v1" by (simp add: Size_def size_v_mk_vector)
  have e: "mk_vector (after_args (quiet 0) (Construct (Inr 4)) (elems ?v1) @ [4])
             (max 1 (2 * Size ?v1) - Size ?v1 - 1) = mk_vector [1, 2, 3, 4] 2"
    "mk_vector (take 1 (after_args (quiet 0) (Construct (Inr 4)) (elems ?v1)) @ 4
                  # drop 1 (after_args (quiet 0) (Construct (Inr 4)) (elems ?v1)))
             (max 1 (2 * Size ?v1) - Size ?v1 - 1) = mk_vector [1, 4, 2, 3] 2"
    "mk_vector (after_args moved_from_is_zero (Move (Element 0)) (elems ?v2) @ [1])
             (max 1 (2 * Size ?v2) - Size ?v2 - 1) = mk_vector [0, 2, 1] 1"
    "mk_vector (after_args (quiet 0) (Construct (Inr 4)) (elems ?v3) @ [4])
             (max 1 (2 * Size ?v3) - Size ?v3 - 1) = mk_vector [4] 0"
    by code_simp+
  note t1 = growth_doubles_capacity [OF inv(1) mem(1) full(1), where args = "Construct (Inr 4)"
        and x = 4 and b = "[Some 1, Some 2, Some 3]" and p = 1, unfolded e]
  note t2 = growth_doubles_capacity [OF inv(2) mem(2) full(2), where args = "Move (Element 0)"
        and x = 1 and b = "[Some 0, Some 2]", unfolded e]
  note t3 = growth_doubles_capacity [OF inv(3) mem(3) full(3), where args = "Construct (Inr 4)"
        and x = 4 and b = "[]", unfolded e]
  have a: "PushBack (quiet 0) ?v1 (Construct (Inr 4)) = Returns (mk_vector [1, 2, 3, 4] 2) ()"
    "EmplaceBack (quiet 0) ?v1 (Construct (Inr 4)) = Returns (mk_vector [1, 2, 3, 4] 2) 4"
    "Emplace (quiet 0) ?v1 1 (Construct (Inr 4)) = Returns (mk_vector [1, 4, 2, 3] 2) 1"
    using t1 pre1 le1 by blast+
  have b: "PushBack moved_from_is_zero ?v2 (Move (Element 0))
     = Returns (mk_vector [0, 2, 1] 1) ()"
    using t2 pre2 by blast
  have c: "PushBack (quiet 0) ?v3 (Construct (Inr 4)) = Returns (mk_vector [4] 0) ()"
    using t3 pre3 by blast
  have d: "(Vector_default :: nat Vector) = mk_vector [] 0"
    by (simp add: Vector_default_def RawMemory_default_def mk_vector_def)
  show ?thesis using inv mem full a b c d by (simp add: Capacity_mk_vector)
qed

end
